theory Spec2Isabelle
  imports Complex_Main "HOL-Library.Sublist"
begin

section \<open>Scrollbar state (vs/base/browser/ui/scrollbar/abstractScrollbar.ts)\<close>















section \<open>Characters and strings of a line\<close>

text \<open>
  A line is a \<open>string\<close>: a list of 8-bit characters, standing for the UTF-16 code units
  \<open>0x00\<close> to \<open>0xFF\<close> of a JavaScript string. The character classes below are the
  JavaScript ones restricted to that range.
\<close>

definition code :: "char \<Rightarrow> nat" where
  \<comment> \<open>\<open>charCodeAt\<close>\<close>
  "code c = of_char c"

definition isUpper :: "char \<Rightarrow> bool" where
  "isUpper c = ((65 \<le> code c \<and> code c \<le> 90) \<or>
                (192 \<le> code c \<and> code c \<le> 222 \<and> code c \<noteq> 215))"

definition charToLowerCase :: "char \<Rightarrow> char" where
  "charToLowerCase c = (if isUpper c then char_of (code c + 32) else c)"

definition toLowerCase :: "string \<Rightarrow> string" where
  "toLowerCase s = map charToLowerCase s"

definition isWordChar :: "char \<Rightarrow> bool" where
  \<comment> \<open>the class \<open>\w\<close>, which contains \<open>\d\<close>\<close>
  "isWordChar c = ((48 \<le> code c \<and> code c \<le> 57) \<or> (65 \<le> code c \<and> code c \<le> 90) \<or>
                   (97 \<le> code c \<and> code c \<le> 122) \<or> c = CHR ''_'')"

definition isRegExpSpace :: "char \<Rightarrow> bool" where
  \<comment> \<open>the class \<open>\s\<close>: tab, the line terminators, space, no-break space\<close>
  "isRegExpSpace c = ((9 \<le> code c \<and> code c \<le> 13) \<or> code c = 32 \<or> code c = 160)"

definition substring :: "string \<Rightarrow> nat \<Rightarrow> nat \<Rightarrow> string" where
  \<comment> \<open>\<open>String.prototype.substring(a, b)\<close>: the arguments are swapped when \<open>a > b\<close>\<close>
  "substring s a b = take (max a b - min a b) (drop (min a b) s)"

definition substringFrom :: "string \<Rightarrow> nat \<Rightarrow> string" where
  \<comment> \<open>\<open>substring(a)\<close>, to the end of the string\<close>
  "substringFrom s a = drop a s"

fun indexOf :: "string \<Rightarrow> string \<Rightarrow> nat option" where
  \<comment> \<open>\<open>xs.indexOf(cond)\<close>; \<open>None\<close> is the result \<open>-1\<close>\<close>
  "indexOf cond [] = (if cond = [] then Some 0 else None)"
| "indexOf cond (x # xs) =
     (if prefix cond (x # xs) then Some 0 else map_option Suc (indexOf cond xs))"

section \<open>The line stream\<close>

text \<open>
  The stream class behind \<open>modes.IStream\<close> (\<open>LineStream\<close>) is not among the sources. The
  spec speaks of a character stream with a position, a next character and an end; the
  operations below are the ones \<open>State.tokenize\<close> calls, under the names it calls them
  by, each doing what its name says. The variants named \<open>...2\<close> return the number of
  characters moved over instead of the characters.
\<close>

datatype error =
    StreamAtEnd
  | CallDepthExceeded

record LineStream =
  source :: string
  pos :: nat

definition newStream :: "string \<Rightarrow> LineStream" where
  \<comment> \<open>Modelled from the spec: the stream of a line (\<open>LineStream\<close>, not among the sources)
      is the line and a position in it, at first \<open>0\<close>.\<close>
  "newStream line = \<lparr>source = line, pos = 0\<rparr>"

definition rest :: "LineStream \<Rightarrow> string" where
  \<comment> \<open>the characters from the position on\<close>
  "rest st = drop (pos st) (source st)"

definition eos :: "LineStream \<Rightarrow> bool" where
  \<comment> \<open>Modelled from the spec: \<open>eos\<close> (not among the sources), the end of the stream.\<close>
  "eos st = (pos st \<ge> length (source st))"

definition peek :: "LineStream \<Rightarrow> error + char" where
  \<comment> \<open>Modelled from the spec: \<open>peek\<close> (not among the sources), the next character; an
      error at the end of the stream.\<close>
  "peek st = (if eos st then Inl StreamAtEnd else Inr (source st ! pos st))"

definition advance :: "nat \<Rightarrow> LineStream \<Rightarrow> string \<times> LineStream" where
  \<comment> \<open>Modelled from the spec: \<open>advance\<close> (not among the sources) moves the position by
      \<open>n\<close> and returns the characters moved over.\<close>
  "advance n st = (take n (rest st), st\<lparr>pos := pos st + n\<rparr>)"

definition advance2 :: "nat \<Rightarrow> LineStream \<Rightarrow> nat \<times> LineStream" where
  \<comment> \<open>Modelled from the spec: as \<open>advance\<close>, returning the number.\<close>
  "advance2 n st = (n, st\<lparr>pos := pos st + n\<rparr>)"

definition nextChar :: "LineStream \<Rightarrow> error + (char \<times> LineStream)" where
  \<comment> \<open>Modelled from the spec: \<open>next\<close> (not among the sources) returns the next character
      and moves over it; an error at the end of the stream.\<close>
  "nextChar st = (if eos st then Inl StreamAtEnd
                  else Inr (source st ! pos st, st\<lparr>pos := pos st + 1\<rparr>))"

definition next2 :: "LineStream \<Rightarrow> error + LineStream" where
  \<comment> \<open>Modelled from the spec: \<open>next2\<close> (not among the sources) moves over the next
      character; an error at the end of the stream.\<close>
  "next2 st = (if eos st then Inl StreamAtEnd else Inr (st\<lparr>pos := pos st + 1\<rparr>))"

definition advanceIfString2 :: "string \<Rightarrow> LineStream \<Rightarrow> nat \<times> LineStream" where
  \<comment> \<open>Modelled from the spec: \<open>advanceIfString2\<close> (not among the sources) moves over the
      string when it stands at the position, and not at all otherwise.\<close>
  "advanceIfString2 cond st =
     advance2 (if cond \<noteq> [] \<and> prefix cond (rest st) then length cond else 0) st"

definition advanceIfStringCaseInsensitive2 :: "string \<Rightarrow> LineStream \<Rightarrow> nat \<times> LineStream" where
  \<comment> \<open>Modelled from the spec: \<open>advanceIfStringCaseInsensitive2\<close> (not among the sources),
      as \<open>advanceIfString2\<close> with the letter case ignored.\<close>
  "advanceIfStringCaseInsensitive2 cond st =
     advance2 (if cond \<noteq> [] \<and> prefix (toLowerCase cond) (toLowerCase (rest st))
               then length cond else 0) st"

definition advanceIfCharCode2 :: "char \<Rightarrow> LineStream \<Rightarrow> nat \<times> LineStream" where
  \<comment> \<open>Modelled from the spec: \<open>advanceIfCharCode2\<close> (not among the sources) moves over
      the next character when it is the given one.\<close>
  "advanceIfCharCode2 c st =
     advance2 (if \<not> eos st \<and> source st ! pos st = c then 1 else 0) st"

definition advanceIfRegExp :: "(string \<Rightarrow> nat option) \<Rightarrow> LineStream \<Rightarrow> string \<times> LineStream" where
  \<comment> \<open>Modelled from the spec: \<open>advanceIfRegExp\<close> (not among the sources) moves over the
      match of the expression at the position and returns it. A regular expression
      anchored at \<open>^\<close> is given by the length of its match at the start of a string,
      \<open>None\<close> when it does not match.\<close>
  "advanceIfRegExp regexp st =
     advance (if eos st then 0 else case regexp (rest st) of None \<Rightarrow> 0 | Some n \<Rightarrow> n) st"

definition untilString :: "string \<Rightarrow> bool \<Rightarrow> LineStream \<Rightarrow> nat" where
  \<comment> \<open>Modelled from the spec: how far \<open>advanceUntilString\<close> (not among the sources) moves:
      to the first occurrence of the string from the position on (to its end when
      \<open>including\<close>), to the end of the line when there is none.\<close>
  "untilString cond including st =
     (if eos st \<or> cond = [] then 0
      else case indexOf cond (rest st) of
             None \<Rightarrow> length (rest st)
           | Some i \<Rightarrow> (if including then i + length cond else i))"

definition advanceUntilString :: "string \<Rightarrow> bool \<Rightarrow> LineStream \<Rightarrow> string \<times> LineStream" where
  \<comment> \<open>Modelled from the spec: \<open>advanceUntilString\<close> (not among the sources).\<close>
  "advanceUntilString cond including st = advance (untilString cond including st) st"

definition advanceUntilString2 :: "string \<Rightarrow> bool \<Rightarrow> LineStream \<Rightarrow> nat \<times> LineStream" where
  \<comment> \<open>Modelled from the spec: \<open>advanceUntilString2\<close> (not among the sources).\<close>
  "advanceUntilString2 cond including st = advance2 (untilString cond including st) st"

definition isStreamWhitespace :: "char \<Rightarrow> bool" where
  \<comment> \<open>Modelled from the spec: the whitespace of the stream (not among the sources): tab,
      space, no-break space.\<close>
  "isStreamWhitespace c = (code c = 9 \<or> code c = 32 \<or> code c = 160)"

definition skipWhitespace2 :: "LineStream \<Rightarrow> nat \<times> LineStream" where
  \<comment> \<open>Modelled from the spec: \<open>skipWhitespace2\<close> (not among the sources) moves over the
      whitespace at the position.\<close>
  "skipWhitespace2 st = advance2 (length (takeWhile isStreamWhitespace (rest st))) st"

section \<open>The HTML tokenizer state (vs/languages/html/common/html.ts)\<close>

datatype States =
    Content
  | OpeningStartTag
  | OpeningEndTag
  | WithinDoctype
  | WithinTag
  | WithinComment
  | WithinEmbeddedContent
  | AttributeName
  | AttributeValue

definition tagsEmbeddingContent :: "string list" where
  "tagsEmbeddingContent = [''script'', ''style'']"

text \<open>
  The fields of \<open>State\<close>. \<open>lastAttributeName\<close> and \<open>embeddedContentType\<close> are assigned
  \<open>null\<close> by the tokenizer: \<open>None\<close>.
\<close>

record State =
  kind :: States
  lastTagName :: string
  lastAttributeName :: "string option"
  embeddedContentType :: "string option"
  attributeValueQuote :: string
  attributeValue :: string

text \<open>
  Modelled from the spec: the token types are constants of the module \<open>htmlTokenTypes\<close>
  (and \<open>EMBED_CS\<close> of \<open>razorTokenTypes\<close>), which is not among the sources; the spec
  names them and does not give their strings, so they are kept as symbolic names.
  \<open>Tag name\<close> is \<open>htmlTokenTypes.getTag(name)\<close> and \<open>EmptyType\<close> the type \<open>''\<close>.
\<close>

datatype token_type =
    COMMENT
  | DELIM_COMMENT
  | DOCTYPE
  | DELIM_DOCTYPE
  | DELIM_END
  | DELIM_START
  | DELIM_ASSIGN
  | ATTRIB_NAME
  | ATTRIB_VALUE
  | EMBED_CS
  | Tag string
  | EmptyType

text \<open>
  Modelled from the spec: the C# states the Razor tokenizer hands over to
  (\<open>csharpTokenization\<close>, not among the sources) are kept as the names of their classes
  with the arguments of their constructors, apart from the mode.
\<close>

datatype cs_state =
    CSComment State string
  | CSStatement State nat nat bool bool bool bool

record ITokenizationResult =
  type :: "token_type option"
  dontMergeWithPrev :: bool
  nextState :: "cs_state option"

definition token :: "token_type \<Rightarrow> ITokenizationResult" where
  \<comment> \<open>\<open>{ type: t }\<close>\<close>
  "token t = \<lparr>type = Some t, dontMergeWithPrev = False, nextState = None\<rparr>"

definition delimiter :: "token_type \<Rightarrow> ITokenizationResult" where
  \<comment> \<open>\<open>{ type: t, dontMergeWithPrev: true }\<close>\<close>
  "delimiter t = \<lparr>type = Some t, dontMergeWithPrev = True, nextState = None\<rparr>"

type_synonym tokenization = "error + (ITokenizationResult \<times> State \<times> LineStream)"

definition escapeTagName :: "string \<Rightarrow> token_type" where
  "escapeTagName s =
     Tag (map (\<lambda>c. if c = CHR '':'' \<or> c = CHR ''_'' \<or> c = CHR ''.'' then CHR ''-'' else c) s)"

definition elementNameRegExp :: "string \<Rightarrow> nat option" where
  \<comment> \<open>\<open>/^[_:\w][_:\w-.\d]*/\<close>\<close>
  "elementNameRegExp s =
     (case s of
        [] \<Rightarrow> None
      | c # cs \<Rightarrow>
          if c = CHR ''_'' \<or> c = CHR '':'' \<or> isWordChar c
          then Some (Suc (length (takeWhile
                 (\<lambda>c. c = CHR ''_'' \<or> c = CHR '':'' \<or> isWordChar c \<or> c = CHR ''-'' \<or> c = CHR ''.'') cs)))
          else None)"

definition attributeNameRegExp :: "string \<Rightarrow> nat option" where
  \<comment> \<open>\<open>/^[^\s"'>/=\x00-\x0F\x7F\x80-\x9F]*/\<close>\<close>
  "attributeNameRegExp s =
     Some (length (takeWhile
       (\<lambda>c. \<not> (isRegExpSpace c \<or> c = CHR 0x22 \<or> c = CHR 0x27 \<or> c = CHR ''>'' \<or> c = CHR ''/'' \<or>
                 c = CHR ''='' \<or> code c \<le> 15 \<or> (127 \<le> code c \<and> code c \<le> 159))) s))"

definition attributeValueRegExp :: "string \<Rightarrow> nat option" where
  \<comment> \<open>\<open>/^[^\s"'`=<>]+/\<close>\<close>
  "attributeValueRegExp s =
     (let n = length (takeWhile
                (\<lambda>c. \<not> (isRegExpSpace c \<or> c = CHR 0x22 \<or> c = CHR 0x27 \<or> c = CHR 0x60 \<or>
                          c = CHR ''='' \<or> c = CHR ''<'' \<or> c = CHR ''>'')) s)
      in if n = 0 then None else Some n)"

definition nextElementName :: "LineStream \<Rightarrow> string \<times> LineStream" where
  "nextElementName stream =
     (let (name, stream) = advanceIfRegExp elementNameRegExp stream in (toLowerCase name, stream))"

definition nextAttributeName :: "LineStream \<Rightarrow> string \<times> LineStream" where
  "nextAttributeName stream =
     (let (name, stream) = advanceIfRegExp attributeNameRegExp stream in (toLowerCase name, stream))"

definition unquote :: "string \<Rightarrow> string" where
  "unquote v =
     (let start = (0::int);
          end' = int (length v);
          start = (if v \<noteq> [] \<and> hd v = CHR 0x22 then start + 1 else start);
          end' = (if v \<noteq> [] \<and> last v = CHR 0x22 then end' - 1 else end')
      in substring v (nat start) (nat end'))"

definition isQuote :: "string \<Rightarrow> bool" where
  \<comment> \<open>\<open>this.attributeValueQuote === '"' || this.attributeValueQuote === '\''\<close>\<close>
  "isQuote q = (q = [CHR 0x22] \<or> q = [CHR 0x27])"

definition isEmbeddingTag :: "string \<Rightarrow> bool" where
  \<comment> \<open>\<open>'script' === this.lastTagName || 'style' === this.lastTagName\<close>\<close>
  "isEmbeddingTag n = (''script'' = n \<or> ''style'' = n)"

definition leaveSwitch :: "State \<Rightarrow> LineStream \<Rightarrow> tokenization" where
  \<comment> \<open>The statements after the \<open>switch\<close>, reached by \<open>break\<close> and by cases that do not return.\<close>
  "leaveSwitch s stream =
     (case next2 stream of
        Inl e \<Rightarrow> Inl e
      | Inr stream \<Rightarrow> Inr (token EmptyType, s\<lparr>kind := Content\<rparr>, stream))"

subsection \<open>\<open>State.tokenize\<close>\<close>

text \<open>
  One definition for each \<open>case\<close> of the \<open>switch\<close>. The stream and the state are
  threaded through the calls in the order of the source; a JavaScript number used as a
  condition is true when it is not \<open>0\<close>. The two places where the source calls
  \<open>this.tokenize(stream)\<close> call the parameter \<open>this_tokenize\<close>: the method is
  virtual, and \<open>RAZORState\<close> overrides it.
\<close>

definition case_WithinComment :: "State \<Rightarrow> LineStream \<Rightarrow> tokenization" where
  "case_WithinComment s stream =
     (let (n, stream) = advanceUntilString2 ''-->'' False stream in
      if n \<noteq> 0 then Inr (token COMMENT, s, stream)
      else
        let (n, stream) = advanceIfString2 ''-->'' stream in
        if n \<noteq> 0 then Inr (delimiter DELIM_COMMENT, s\<lparr>kind := Content\<rparr>, stream)
        else leaveSwitch s stream)"

definition case_WithinDoctype :: "State \<Rightarrow> LineStream \<Rightarrow> tokenization" where
  "case_WithinDoctype s stream =
     (let (n, stream) = advanceUntilString2 ''>'' False stream in
      if n \<noteq> 0 then Inr (token DOCTYPE, s, stream)
      else
        let (n, stream) = advanceIfString2 ''>'' stream in
        if n \<noteq> 0 then Inr (delimiter DELIM_DOCTYPE, s\<lparr>kind := Content\<rparr>, stream)
        else leaveSwitch s stream)"

definition openTag :: "State \<Rightarrow> LineStream \<Rightarrow> tokenization" where
  \<comment> \<open>in \<open>case States.Content\<close>, after \<open><\<close>: the statements that follow the test for \<open>!\<close>\<close>
  "openTag s stream =
     (let (n, stream) = advanceIfCharCode2 (CHR ''/'') stream in
      if n \<noteq> 0 then Inr (delimiter DELIM_END, s\<lparr>kind := OpeningEndTag\<rparr>, stream)
      else Inr (delimiter DELIM_START, s\<lparr>kind := OpeningStartTag\<rparr>, stream))"

definition case_Content :: "State \<Rightarrow> LineStream \<Rightarrow> tokenization" where
  "case_Content s stream =
     (let (n, stream) = advanceIfCharCode2 (CHR ''<'') stream in
      if n \<noteq> 0 then
        if \<not> eos stream \<and> peek stream = Inr (CHR ''!'') then
          let (n, stream) = advanceIfString2 ''!--'' stream in
          if n \<noteq> 0 then Inr (delimiter DELIM_COMMENT, s\<lparr>kind := WithinComment\<rparr>, stream)
          else
            let (n, stream) = advanceIfStringCaseInsensitive2 ''!DOCTYPE'' stream in
            if n \<noteq> 0 then Inr (delimiter DELIM_DOCTYPE, s\<lparr>kind := WithinDoctype\<rparr>, stream)
            else openTag s stream
        else openTag s stream
      else leaveSwitch s stream)"

definition case_OpeningEndTag :: "State \<Rightarrow> LineStream \<Rightarrow> tokenization" where
  "case_OpeningEndTag s stream =
     (let (tagName, stream) = nextElementName stream in
      if length tagName > 0 then Inr (token (escapeTagName tagName), s, stream)
      else
        let (n, stream) = advanceIfString2 ''>'' stream in
        if n \<noteq> 0 then Inr (delimiter DELIM_END, s\<lparr>kind := Content\<rparr>, stream)
        else
          let (n, stream) = advanceUntilString2 ''>'' False stream in
          Inr (token EmptyType, s, stream))"

definition case_OpeningStartTag :: "State \<Rightarrow> LineStream \<Rightarrow> tokenization" where
  "case_OpeningStartTag s stream =
     (let (name, stream) = nextElementName stream;
          s = s\<lparr>lastTagName := name\<rparr> in
      if length (lastTagName s) > 0 then
        let s = s\<lparr>lastAttributeName := None\<rparr>;
            s = (if isEmbeddingTag (lastTagName s)
                 then s\<lparr>lastAttributeName := None, embeddedContentType := None\<rparr> else s);
            s = s\<lparr>kind := WithinTag\<rparr>
        in Inr (token (escapeTagName (lastTagName s)), s, stream)
      else leaveSwitch s stream)"

definition closeTag :: "State \<Rightarrow> LineStream \<Rightarrow> tokenization" where
  \<comment> \<open>in \<open>case States.WithinTag\<close>: the statements that follow the test for an attribute name\<close>
  "closeTag s stream =
     (let (n, stream) = advanceIfString2 ''/>'' stream in
      if n \<noteq> 0 then Inr (delimiter DELIM_START, s\<lparr>kind := Content\<rparr>, stream)
      else
        let (n, stream) = advanceIfCharCode2 (CHR ''>'') stream in
        if n \<noteq> 0 then
          if lastTagName s \<in> set tagsEmbeddingContent
          then Inr (delimiter DELIM_START, s\<lparr>kind := WithinEmbeddedContent\<rparr>, stream)
          else Inr (delimiter DELIM_START, s\<lparr>kind := Content\<rparr>, stream)
        else
          case next2 stream of
            Inl e \<Rightarrow> Inl e
          | Inr stream \<Rightarrow> Inr (token EmptyType, s, stream))"

definition case_WithinTag :: "State \<Rightarrow> LineStream \<Rightarrow> tokenization" where
  "case_WithinTag s stream =
     (let (n, stream) = skipWhitespace2 stream in
      if n \<noteq> 0 \<or> eos stream then Inr (token EmptyType, s\<lparr>lastAttributeName := Some ''''\<rparr>, stream)
      else if lastAttributeName s = Some '''' then
        let (name, stream) = nextAttributeName stream in
        if length name > 0
        then Inr (token ATTRIB_NAME, s\<lparr>lastAttributeName := Some name, kind := AttributeName\<rparr>, stream)
        else closeTag s stream
      else closeTag s stream)"

definition case_AttributeName ::
  "(State \<Rightarrow> LineStream \<Rightarrow> tokenization) \<Rightarrow> State \<Rightarrow> LineStream \<Rightarrow> tokenization" where
  "case_AttributeName this_tokenize s stream =
     (let (n, stream) = skipWhitespace2 stream in
      if n \<noteq> 0 \<or> eos stream then Inr (token EmptyType, s, stream)
      else
        let (n, stream) = advanceIfCharCode2 (CHR ''='') stream in
        if n \<noteq> 0 then Inr (token DELIM_ASSIGN, s\<lparr>kind := AttributeValue\<rparr>, stream)
        else this_tokenize (s\<lparr>kind := WithinTag, lastAttributeName := Some ''''\<rparr>) stream)"

definition quotedValue :: "State \<Rightarrow> LineStream \<Rightarrow> tokenization" where
  \<comment> \<open>in \<open>case States.AttributeValue\<close>: inside the quotes of an attribute value\<close>
  "quotedValue s stream =
     (if attributeValue s = attributeValueQuote s \<and> isEmbeddingTag (lastTagName s) \<and>
         Some ''type'' = lastAttributeName s
      then
        let (v, stream) = advanceUntilString (attributeValueQuote s) True stream;
            s = s\<lparr>attributeValue := v\<rparr> in
        if length (attributeValue s) > 0
        then Inr (token ATTRIB_VALUE,
                  s\<lparr>embeddedContentType := Some (unquote (attributeValue s)), kind := WithinTag,
                    attributeValue := '''', attributeValueQuote := ''''\<rparr>, stream)
        else leaveSwitch s stream
      else
        let (n, stream) = advanceIfCharCode2 (hd (attributeValueQuote s)) stream in
        if n \<noteq> 0
        then Inr (token ATTRIB_VALUE,
                  s\<lparr>kind := WithinTag, attributeValue := '''', attributeValueQuote := '''',
                    lastAttributeName := None\<rparr>, stream)
        else
          case nextChar stream of
            Inl e \<Rightarrow> Inl e
          | Inr (part, stream) \<Rightarrow>
              Inr (token ATTRIB_VALUE, s\<lparr>attributeValue := attributeValue s @ [part]\<rparr>, stream))"

definition unquotedValue ::
  "(State \<Rightarrow> LineStream \<Rightarrow> tokenization) \<Rightarrow> State \<Rightarrow> LineStream \<Rightarrow> tokenization" where
  \<comment> \<open>in \<open>case States.AttributeValue\<close>: no quote has been seen\<close>
  "unquotedValue this_tokenize s stream =
     (let (v, stream) = advanceIfRegExp attributeValueRegExp stream in
      if length v > 0
      then Inr (token ATTRIB_VALUE, s\<lparr>kind := WithinTag, lastAttributeName := None\<rparr>, stream)
      else
        case peek stream of
          Inl e \<Rightarrow> Inl e
        | Inr ch \<Rightarrow>
            if ch = CHR 0x27 \<or> ch = CHR 0x22 then
              let s = s\<lparr>attributeValueQuote := [ch], attributeValue := [ch]\<rparr> in
              case next2 stream of
                Inl e \<Rightarrow> Inl e
              | Inr stream \<Rightarrow> Inr (token ATTRIB_VALUE, s, stream)
            else this_tokenize (s\<lparr>kind := WithinTag, lastAttributeName := None\<rparr>) stream)"

definition case_AttributeValue ::
  "(State \<Rightarrow> LineStream \<Rightarrow> tokenization) \<Rightarrow> State \<Rightarrow> LineStream \<Rightarrow> tokenization" where
  "case_AttributeValue this_tokenize s stream =
     (if eos stream then Inr (token EmptyType, s, stream)
      else
        let (n, stream) = skipWhitespace2 stream in
        if n \<noteq> 0 then
          if isQuote (attributeValueQuote s) then Inr (token ATTRIB_VALUE, s, stream)
          else Inr (token EmptyType, s, stream)
        else if isQuote (attributeValueQuote s) then quotedValue s stream
        else unquotedValue this_tokenize s stream)"

definition State_tokenize ::
  "(State \<Rightarrow> LineStream \<Rightarrow> tokenization) \<Rightarrow> State \<Rightarrow> LineStream \<Rightarrow> tokenization" where
  "State_tokenize this_tokenize s stream =
     (case kind s of
        WithinComment \<Rightarrow> case_WithinComment s stream
      | WithinDoctype \<Rightarrow> case_WithinDoctype s stream
      | Content \<Rightarrow> case_Content s stream
      | OpeningEndTag \<Rightarrow> case_OpeningEndTag s stream
      | OpeningStartTag \<Rightarrow> case_OpeningStartTag s stream
      | WithinTag \<Rightarrow> case_WithinTag s stream
      | AttributeName \<Rightarrow> case_AttributeName this_tokenize s stream
      | AttributeValue \<Rightarrow> case_AttributeValue this_tokenize s stream
      | WithinEmbeddedContent \<Rightarrow> leaveSwitch s stream)"

text \<open>
  \<open>tokenize_depth d\<close> is \<open>State.tokenize\<close> of an HTML \<open>State\<close> run with room for
  \<open>d\<close> nested activations of the method: a call that would need one more ends in
  \<open>CallDepthExceeded\<close>.
\<close>

fun tokenize_depth :: "nat \<Rightarrow> State \<Rightarrow> LineStream \<Rightarrow> tokenization" where
  "tokenize_depth 0 s stream = Inl CallDepthExceeded"
| "tokenize_depth (Suc d) s stream = State_tokenize (tokenize_depth d) s stream"

definition tokenize :: "State \<Rightarrow> LineStream \<Rightarrow> tokenization" where
  "tokenize s stream = tokenize_depth 2 s stream"

text \<open>
  Modelled from the spec: the driver that tokenizes a line (\<open>TokenizationSupport\<close>) is not
  among the sources. The spec speaks of tokenizing a finite line by repeated calls: the
  loop below calls \<open>tokenize\<close> until the stream is at its end and collects the results;
  \<open>None\<close> means that the given number of calls did not reach the end.
\<close>

fun tokenizeLine ::
  "nat \<Rightarrow> State \<Rightarrow> LineStream \<Rightarrow> (error + (ITokenizationResult list \<times> State)) option" where
  "tokenizeLine 0 s stream = (if eos stream then Some (Inr ([], s)) else None)"
| "tokenizeLine (Suc n) s stream =
     (if eos stream then Some (Inr ([], s))
      else case tokenize s stream of
             Inl e \<Rightarrow> Some (Inl e)
           | Inr (r, s, stream) \<Rightarrow>
               (case tokenizeLine n s stream of
                  None \<Rightarrow> None
                | Some (Inl e) \<Rightarrow> Some (Inl e)
                | Some (Inr (rs, s)) \<Rightarrow> Some (Inr (r # rs, s))))"

section \<open>The Razor tokenizer state (vs/languages/razor/common/razor.ts)\<close>

text \<open>
  \<open>RAZORState\<close> has the fields of \<open>State\<close>. Its \<open>tokenize\<close> takes the inherited
  method as the parameter \<open>super_tokenize\<close>.
\<close>

definition RAZORState_tokenize ::
  "(State \<Rightarrow> LineStream \<Rightarrow> tokenization) \<Rightarrow> State \<Rightarrow> LineStream \<Rightarrow> tokenization" where
  "RAZORState_tokenize super_tokenize s stream =
     (if \<not> eos stream \<and> peek stream = Inr (CHR ''@'') then
        case nextChar stream of
          Inl e \<Rightarrow> Inl e
        | Inr (c, stream) \<Rightarrow>
            if \<not> eos stream \<and> peek stream = Inr (CHR ''*'')
            then Inr (\<lparr>type = None, dontMergeWithPrev = False,
                       nextState = Some (CSComment s ''@'')\<rparr>, s, stream)
            else if eos stream \<or> peek stream \<noteq> Inr (CHR ''@'')
            then Inr (\<lparr>type = Some EMBED_CS, dontMergeWithPrev = False,
                       nextState = Some (CSStatement s 0 0 True True True False)\<rparr>, s, stream)
            else super_tokenize s stream
      else super_tokenize s stream)"

text \<open>
  The inherited method, run on a \<open>RAZORState\<close>, calls the overriding method at its
  two \<open>this.tokenize(stream)\<close>.
\<close>

fun razor_tokenize_depth :: "nat \<Rightarrow> State \<Rightarrow> LineStream \<Rightarrow> tokenization" where
  "razor_tokenize_depth 0 s stream = Inl CallDepthExceeded"
| "razor_tokenize_depth (Suc d) s stream =
     RAZORState_tokenize (State_tokenize (razor_tokenize_depth d)) s stream"

definition razor_tokenize :: "State \<Rightarrow> LineStream \<Rightarrow> tokenization" where
  "razor_tokenize s stream = razor_tokenize_depth 2 s stream"

section \<open>Notions used in the statements about the tokenizers\<close>

definition moved :: "LineStream \<Rightarrow> LineStream \<Rightarrow> bool" where
  \<comment> \<open>the second stream is the first one, at least one character further, within the line\<close>
  "moved stream stream' =
     (source stream' = source stream \<and> pos stream < pos stream' \<and>
      pos stream' \<le> length (source stream))"

definition progress :: "LineStream \<Rightarrow> tokenization \<Rightarrow> bool" where
  \<comment> \<open>a call started at the stream returned normally and moved the stream\<close>
  "progress stream res = (case res of Inl e \<Rightarrow> False | Inr (r, s, stream') \<Rightarrow> moved stream stream')"

definition counted :: "LineStream \<Rightarrow> nat \<times> LineStream \<Rightarrow> bool" where
  \<comment> \<open>an operation that returns a count moved the stream exactly when the count is not 0\<close>
  "counted stream r = (if fst r = 0 then snd r = stream else moved stream (snd r))"

definition taken :: "LineStream \<Rightarrow> string \<times> LineStream \<Rightarrow> bool" where
  \<comment> \<open>an operation that returns a string moved the stream exactly when the string is not empty\<close>
  "taken stream r = (if fst r = [] then snd r = stream else moved stream (snd r))"

section \<open>The modes: entering and leaving a nested mode\<close>

text \<open>
  An \<open>IState\<close> is an HTML \<open>State\<close>, a \<open>RAZORState\<close> (a subclass of \<open>State\<close>) or a
  state of another class, of which nothing more is known here.
\<close>

datatype IState =
    HTMLState State
  | RAZORState State
  | OtherState

definition enterNestedMode :: "IState \<Rightarrow> bool" where
  \<comment> \<open>\<open>state instanceof State && (<State>state).kind === States.WithinEmbeddedContent\<close>\<close>
  "enterNestedMode state =
     (case state of
        HTMLState s \<Rightarrow> kind s = WithinEmbeddedContent
      | RAZORState s \<Rightarrow> kind s = WithinEmbeddedContent
      | OtherState \<Rightarrow> False)"

subsection \<open>\<open>getLeavingNestedModeData\<close>\<close>

text \<open>
  The regular expression \<open>new RegExp('<\\/' + tagName + '\\s*>', 'i')\<close>. The tag name is
  pasted into the source of the expression: the tokenizer only stores names made of
  letters, digits and \<open>_ : - .\<close>, of which \<open>.\<close> has a meaning in a regular expression (any
  character but a line terminator) and the others stand for themselves. A tag name with
  another syntax character of regular expressions is outside this model
  (\<open>PatternOutsideModel\<close>); some of those make the constructor throw.
\<close>

datatype regexp_error = PatternOutsideModel

datatype atom =
    AnyChar
  | Literal char

definition isSyntaxCharacter :: "char \<Rightarrow> bool" where
  \<comment> \<open>\<open>^ $ \ . * + ? ( ) [ ] { } |\<close>\<close>
  "isSyntaxCharacter c =
     (c \<in> {CHR ''^'', CHR ''$'', CHR 0x5C, CHR ''.'', CHR ''*'', CHR ''+'', CHR ''?'', CHR ''('',
            CHR '')'', CHR ''['', CHR '']'', CHR ''{'', CHR ''}'', CHR ''|''})"

definition closingTagPattern :: "string \<Rightarrow> regexp_error + atom list" where
  \<comment> \<open>the part \<open><\/\<close> + \<open>tagName\<close> of the expression, one atom for each character it matches\<close>
  "closingTagPattern tagName =
     (if \<exists>c \<in> set tagName. isSyntaxCharacter c \<and> c \<noteq> CHR ''.'' then Inl PatternOutsideModel
      else Inr (Literal (CHR ''<'') # Literal (CHR ''/'') #
                map (\<lambda>c. if c = CHR ''.'' then AnyChar else Literal c) tagName))"

definition isLineTerminator :: "char \<Rightarrow> bool" where
  "isLineTerminator c = (code c = 10 \<or> code c = 13)"

fun atomMatches :: "atom \<Rightarrow> char \<Rightarrow> bool" where
  \<comment> \<open>under the flag \<open>i\<close>\<close>
  "atomMatches AnyChar c = (\<not> isLineTerminator c)"
| "atomMatches (Literal p) c = (charToLowerCase p = charToLowerCase c)"

fun matchAtoms :: "atom list \<Rightarrow> string \<Rightarrow> string option" where
  \<comment> \<open>what is left of the string after the atoms have matched its start\<close>
  "matchAtoms [] xs = Some xs"
| "matchAtoms (a # as) [] = None"
| "matchAtoms (a # as) (x # xs) = (if atomMatches a x then matchAtoms as xs else None)"

definition matchesHere :: "atom list \<Rightarrow> string \<Rightarrow> bool" where
  \<comment> \<open>the atoms, then \<open>\s*\<close>, then \<open>>\<close> match at the start of the string\<close>
  "matchesHere atoms xs =
     (case matchAtoms atoms xs of
        None \<Rightarrow> False
      | Some ys \<Rightarrow> (case dropWhile isRegExpSpace ys of [] \<Rightarrow> False | c # cs \<Rightarrow> c = CHR ''>''))"

fun execFrom :: "atom list \<Rightarrow> string \<Rightarrow> nat option" where
  \<comment> \<open>\<open>regexp.exec(line)\<close>: the index of the leftmost match, \<open>None\<close> for \<open>null\<close>\<close>
  "execFrom atoms [] = (if matchesHere atoms [] then Some 0 else None)"
| "execFrom atoms (x # xs) =
     (if matchesHere atoms (x # xs) then Some 0 else map_option Suc (execFrom atoms xs))"

record ILeavingNestedModeData =
  nestedModeBuffer :: string
  bufferAfterNestedMode :: string
  stateAfterNestedMode :: IState

definition emptyContentState :: State where
  \<comment> \<open>\<open>new State(this, States.Content, '', '', '', '', '')\<close>\<close>
  "emptyContentState =
     \<lparr>kind = Content, lastTagName = '''', lastAttributeName = Some '''',
      embeddedContentType = Some '''', attributeValueQuote = '''', attributeValue = ''''\<rparr>"

definition getInitialState :: IState where
  "getInitialState = HTMLState emptyContentState"

definition getLeavingNestedModeData ::
  "string \<Rightarrow> State \<Rightarrow> regexp_error + ILeavingNestedModeData option" where
  "getLeavingNestedModeData line state =
     (let tagName = lastTagName state in
      case closingTagPattern tagName of
        Inl e \<Rightarrow> Inl e
      | Inr regexp \<Rightarrow>
          (case execFrom regexp line of
             Some index \<Rightarrow>
               Inr (Some \<lparr>nestedModeBuffer = substring line 0 index,
                          bufferAfterNestedMode = substringFrom line index,
                          stateAfterNestedMode = HTMLState emptyContentState\<rparr>)
           | None \<Rightarrow> Inr None))"





definition inModel :: "string \<Rightarrow> bool" where
  \<comment> \<open>the tag names whose regular expression is modelled\<close>
  "inModel tagName = (\<forall>c \<in> set tagName. isSyntaxCharacter c \<longrightarrow> c = CHR ''.'')"

definition nameChar :: "char \<Rightarrow> bool" where
  \<comment> \<open>the characters of \<open>[_:\w-.\d]\<close>\<close>
  "nameChar c = (c = CHR ''_'' \<or> c = CHR '':'' \<or> isWordChar c \<or> c = CHR ''-'' \<or> c = CHR ''.'')"

definition tagNameInModel :: "tokenization \<Rightarrow> bool" where
  \<comment> \<open>a call that returned left a tag name whose regular expression is modelled\<close>
  "tagNameInModel res = (case res of Inl e \<Rightarrow> True | Inr (r, s, stream) \<Rightarrow> inModel (lastTagName s))"

section \<open>The configuration service (vs/platform/configuration/common/configurationService.ts)\<close>

text \<open>
  A promise is modelled by its outcome: \<open>Inr v\<close> when it is fulfilled with \<open>v\<close>,
  \<open>Inl e\<close> when it is rejected. Of the value of a rejection the service only tests
  whether it is truthy (\<open>if (err)\<close>); \<open>TypeError\<close> is the error the runtime throws
  when a method is called on \<open>undefined\<close>.
\<close>

datatype rejection =
    Falsy
  | Truthy
  | TypeError

definition truthy :: "rejection \<Rightarrow> bool" where
  "truthy err = (err \<noteq> Falsy)"

text \<open>A resource is given by its path.\<close>

record IStat =
  resource :: string
  isDirectory :: bool
  children :: "string list option"

record IContent =
  content_resource :: string
  content_value :: string

datatype FileChangeType =
    UPDATED
  | ADDED
  | DELETED

record FileChange =
  change_resource :: string
  change_type :: FileChangeType

text \<open>
  What the service is given: its abstract methods (\<open>resolveStat\<close>, \<open>resolveContents\<close>,
  \<open>resolveContent\<close>), and the functions of modules that are not among the sources
  (\<open>contextService\<close>, \<open>paths\<close>, \<open>model\<close>), taken as parameters. A configuration file
  is a value of the type \<open>'c\<close>, a configuration value one of the type \<open>'v\<close>; an
  object with properties lives in the store, and \<open>getDefaultValues\<close> is the reference
  of the object \<open>model.getDefaultValues()\<close> returns.
\<close>

record 'v consolidation =
  contents :: "string \<rightharpoonup> 'v"
  parseErrors :: "string list"

record ('c, 'v) environment =
  resolveStat :: "string \<Rightarrow> rejection + IStat"
  resolveContents :: "string list \<Rightarrow> rejection + IContent list"
  resolveContent :: "string \<Rightarrow> rejection + IContent"
  toResource :: "string \<Rightarrow> string"
  toWorkspaceRelativePath :: "string \<Rightarrow> string option"
  extname :: "string \<Rightarrow> string"
  isEqualOrParent :: "string \<Rightarrow> string \<Rightarrow> bool"
  newConfigFile :: "string \<Rightarrow> 'c"
  consolidate :: "(string \<rightharpoonup> 'c option) \<Rightarrow> 'v consolidation"
  getDefaultValues :: nat

text \<open>
  The store of objects: a reference is a number, and \<open>nextRef\<close> is the first one that
  has not been given out.
\<close>

record 'v store =
  objects :: "nat \<rightharpoonup> (string \<rightharpoonup> 'v)"
  nextRef :: nat


definition clone :: "'v store \<Rightarrow> nat \<Rightarrow> nat \<times> 'v store" where
  \<comment> \<open>Modelled from the spec: \<open>objects.clone\<close> is not among the sources. The caller's
      comment on its argument reads \<open>target: global/default values (but dont modify!)\<close>:
      the clone is a new object with the properties of its argument.\<close>
  "clone h obj =
     (nextRef h,
      h\<lparr>objects := (objects h)(nextRef h \<mapsto> (case objects h obj of None \<Rightarrow> Map.empty | Some ps \<Rightarrow> ps)),
        nextRef := Suc (nextRef h)\<rparr>)"

definition mixin :: "'v store \<Rightarrow> nat \<Rightarrow> (string \<rightharpoonup> 'v) \<Rightarrow> bool \<Rightarrow> nat \<times> 'v store" where
  \<comment> \<open>Modelled from the spec: \<open>objects.mixin\<close> is not among the sources. The spec has the
      merged configuration built by overwriting the global values with the workspace
      values, and the caller names the arguments target, source and overwrite: every
      property of the source is written to the target object, over a property the target
      already has only when \<open>overwrite\<close> is set; the target is returned.\<close>
  "mixin h destination source' overwrite =
     (destination,
      h\<lparr>objects := (objects h)(destination \<mapsto>
           (case objects h destination of
              None \<Rightarrow> source'
            | Some ps \<Rightarrow> (if overwrite then ps ++ source' else source' ++ ps)))\<rparr>)"

record 'v ILoadConfigResult =
  merged :: nat
  consolidated :: "'v consolidation"
  globals :: nat

record ('c, 'v) ConfigurationService =
  workspaceSettingsRootFolder :: string
  cachedConfig :: "'v ILoadConfigResult option"
  bulkFetchFromWorkspacePromise :: "(rejection + unit) option"
  workspaceFilePathToConfiguration :: "string \<rightharpoonup> 'c option"

definition ConfigurationService_new :: "string \<Rightarrow> ('c, 'v) ConfigurationService" where
  \<comment> \<open>the constructor; the initial \<open>cachedConfig\<close> of empty objects is \<open>None\<close>\<close>
  "ConfigurationService_new folder =
     \<lparr>workspaceSettingsRootFolder = folder, cachedConfig = None,
      bulkFetchFromWorkspacePromise = None, workspaceFilePathToConfiguration = Map.empty\<rparr>"

definition propertyKey :: "string option \<Rightarrow> string" where
  \<comment> \<open>a value used as a property key; \<open>null\<close> gives the key \<open>null\<close>\<close>
  "propertyKey p = (case p of None \<Rightarrow> ''null'' | Some k \<Rightarrow> k)"

definition bulkFetch ::
  "('c, 'v) environment \<Rightarrow> ('c, 'v) ConfigurationService \<Rightarrow> rejection + IContent list option" where
  \<comment> \<open>\<open>this.resolveStat(...).then((stat) => ..., (err) => ...)\<close>; \<open>Inr None\<close> is the promise
      fulfilled with \<open>undefined\<close>\<close>
  "bulkFetch env svc =
     (case resolveStat env (toResource env (workspaceSettingsRootFolder svc)) of
        Inr stat \<Rightarrow>
          if \<not> isDirectory stat then Inr (Some [])
          else (case children stat of
                  None \<Rightarrow> Inl TypeError
                | Some cs \<Rightarrow>
                    (case resolveContents env (filter (\<lambda>r. extname env r = ''.json'') cs) of
                       Inl e \<Rightarrow> Inl e
                     | Inr fetched \<Rightarrow> Inr (Some fetched)))
      | Inl err \<Rightarrow> if truthy err then Inr (Some []) else Inr None)"

definition recordContents ::
  "('c, 'v) environment \<Rightarrow> IContent list \<Rightarrow> (string \<rightharpoonup> 'c option) \<Rightarrow> (string \<rightharpoonup> 'c option)" where
  \<comment> \<open>\<open>contents.forEach(content => this.workspaceFilePathToConfiguration[...] = ...)\<close>\<close>
  "recordContents env fetched files =
     fold (\<lambda>content files.
             files(propertyKey (toWorkspaceRelativePath env (content_resource content)) \<mapsto>
                     Some (newConfigFile env (content_value content))))
          fetched files"

definition loadWorkspaceConfiguration ::
  "('c, 'v) environment \<Rightarrow> ('c, 'v) ConfigurationService \<Rightarrow>
     (rejection + (string \<rightharpoonup> 'c option)) \<times> ('c, 'v) ConfigurationService" where
  "loadWorkspaceConfiguration env svc =
     (let svc =
            (if bulkFetchFromWorkspacePromise svc = None then
               (case bulkFetch env svc of
                  Inr (Some fetched) \<Rightarrow>
                    svc\<lparr>bulkFetchFromWorkspacePromise := Some (Inr ()),
                        workspaceFilePathToConfiguration :=
                          recordContents env fetched (workspaceFilePathToConfiguration svc)\<rparr>
                | Inr None \<Rightarrow> svc\<lparr>bulkFetchFromWorkspacePromise := Some (Inl TypeError)\<rparr>
                | Inl e \<Rightarrow> svc\<lparr>bulkFetchFromWorkspacePromise := Some (Inr ())\<rparr>)
             else svc)
      in case bulkFetchFromWorkspacePromise svc of
           Some (Inl e) \<Rightarrow> (Inl e, svc)
         | _ \<Rightarrow> (Inr (workspaceFilePathToConfiguration svc), svc))"

definition mergeConfiguration ::
  "('c, 'v) environment \<Rightarrow> 'v store \<Rightarrow> (string \<rightharpoonup> 'c option) \<Rightarrow> 'v ILoadConfigResult \<times> 'v store" where
  \<comment> \<open>the first \<open>then\<close> of \<open>doLoadConfiguration\<close>; \<open>loadGlobalConfiguration().contents\<close> is
      \<open>model.getDefaultValues()\<close>\<close>
  "mergeConfiguration env h values' =
     (let globals = getDefaultValues env;
          consolidated = consolidate env values';
          (target, h) = clone h globals;
          (merged, h) = mixin h target (contents consolidated) True
      in (\<lparr>merged = merged, consolidated = consolidated, globals = globals\<rparr>, h))"

definition doLoadConfiguration ::
  "('c, 'v) environment \<Rightarrow> ('c, 'v) ConfigurationService \<Rightarrow> 'v store \<Rightarrow>
     (rejection + 'v ILoadConfigResult) \<times> ('c, 'v) ConfigurationService \<times> 'v store" where
  \<comment> \<open>up to \<open>this.cachedConfig = res\<close>; the view \<open>getConfiguration(section)\<close> that the
      promise is finally fulfilled with is not modelled\<close>
  "doLoadConfiguration env svc h =
     (case loadWorkspaceConfiguration env svc of
        (Inl e, svc) \<Rightarrow> (Inl e, svc, h)
      | (Inr values', svc) \<Rightarrow>
          let (res, h) = mergeConfiguration env h values'
          in (Inr res, svc\<lparr>cachedConfig := Some res\<rparr>, h))"

definition loadConfiguration ::
  "('c, 'v) environment \<Rightarrow> ('c, 'v) ConfigurationService \<Rightarrow> 'v store \<Rightarrow>
     (rejection + 'v ILoadConfigResult) \<times> ('c, 'v) ConfigurationService \<times> 'v store" where
  "loadConfiguration env svc h =
     doLoadConfiguration env
       (svc\<lparr>bulkFetchFromWorkspacePromise := None, workspaceFilePathToConfiguration := Map.empty\<rparr>) h"

definition handleFileEvent ::
  "('c, 'v) environment \<Rightarrow> string \<Rightarrow> FileChange \<Rightarrow> (string \<rightharpoonup> 'c option) \<times> bool \<Rightarrow>
     (string \<rightharpoonup> 'c option) \<times> bool" where
  \<comment> \<open>one round of the loop of \<open>handleFileEvents\<close>, on the map of files and \<open>affectedByChanges\<close>\<close>
  "handleFileEvent env folder event st =
     (case toWorkspaceRelativePath env (change_resource event) of
        None \<Rightarrow> st
      | Some workspacePath \<Rightarrow>
          if workspacePath = [] then st
          else
            let st = (if workspacePath = folder \<and> change_type event = DELETED
                      then (Map.empty, True) else st)
            in if extname env workspacePath \<noteq> ''.json'' \<or> \<not> isEqualOrParent env workspacePath folder
               then st
               else (case change_type event of
                       DELETED \<Rightarrow> ((fst st)(workspacePath := None), fst st workspacePath \<noteq> None)
                     | _ \<Rightarrow>
                         ((fst st)(workspacePath \<mapsto>
                            (case resolveContent env (change_resource event) of
                               Inr content \<Rightarrow> Some (newConfigFile env (content_value content))
                             | Inl e \<Rightarrow> None)), True)))"

definition handleFileEvents ::
  "('c, 'v) environment \<Rightarrow> FileChange list \<Rightarrow> ('c, 'v) ConfigurationService \<Rightarrow>
     ('c, 'v) ConfigurationService \<times> bool" where
  \<comment> \<open>the new state and \<open>affectedByChanges\<close>; the reload it schedules is not modelled\<close>
  "handleFileEvents env events svc =
     (let (files, affectedByChanges) =
            fold (handleFileEvent env (workspaceSettingsRootFolder svc)) events
              (workspaceFilePathToConfiguration svc, False)
      in (svc\<lparr>workspaceFilePathToConfiguration := files\<rparr>, affectedByChanges))"

text \<open>
  An environment for the examples: a workspace at \<open>/w/\<close> whose settings folder cannot be
  resolved; a configuration file is its text, and the consolidation of the files maps
  the path of each file that could be read to its text. The store holds the default
  values at the reference \<open>0\<close>.
\<close>

definition missingFolder :: "(string, string) environment" where
  "missingFolder =
     \<lparr>resolveStat = (\<lambda>r. Inl Truthy),
      resolveContents = (\<lambda>rs. Inr []),
      resolveContent = (\<lambda>r. Inr \<lparr>content_resource = r, content_value = ''{}''\<rparr>),
      toResource = (\<lambda>p. ''/w/'' @ p),
      toWorkspaceRelativePath = (\<lambda>r. if take 3 r = ''/w/'' then Some (drop 3 r) else None),
      extname = (\<lambda>p. if suffix ''.json'' p then ''.json'' else ''''),
      isEqualOrParent = (\<lambda>p folder. prefix folder p),
      newConfigFile = (\<lambda>text. text),
      consolidate = (\<lambda>files. \<lparr>contents = (\<lambda>k. case files k of Some (Some text) \<Rightarrow> Some text | _ \<Rightarrow> None),
                                 parseErrors = []\<rparr>),
      getDefaultValues = 0\<rparr>"

definition defaultsStore :: "string store" where
  "defaultsStore = \<lparr>objects = [0 \<mapsto> [''editor.fontSize'' \<mapsto> ''12'']], nextRef = 1\<rparr>"

section \<open>Properties of the scrollbar state\<close>

















section \<open>Properties of the tokenizers\<close>

subsection \<open>The stream operations\<close>

lemma rest_Nil_iff: "rest st = [] \<longleftrightarrow> eos st"
  by (simp add: rest_def eos_def)

lemma length_rest: "length (rest st) = length (source st) - pos st"
  by (simp add: rest_def)

lemma advance2_zero: "advance2 0 st = (0, st)"
  by (simp add: advance2_def)

lemma advance2_fst: "fst (advance2 n st) = n"
  by (simp add: advance2_def)

lemma advance2_moved: "0 < n \<Longrightarrow> n \<le> length (rest st) \<Longrightarrow> moved st (snd (advance2 n st))"
  by (simp add: advance2_def moved_def length_rest)

lemma advance_zero: "advance 0 st = ([], st)"
  by (simp add: advance_def)

lemma advance_length: "n \<le> length (rest st) \<Longrightarrow> length (fst (advance n st)) = n"
  by (simp add: advance_def)

lemma advance_moved: "0 < n \<Longrightarrow> n \<le> length (rest st) \<Longrightarrow> moved st (snd (advance n st))"
  by (simp add: advance_def moved_def length_rest)

lemma next2_moved: "\<not> eos st \<Longrightarrow> \<exists>st'. next2 st = Inr st' \<and> moved st st'"
  by (simp add: next2_def moved_def eos_def)

lemma nextChar_moved: "\<not> eos st \<Longrightarrow> \<exists>c st'. nextChar st = Inr (c, st') \<and> moved st st'"
  by (simp add: nextChar_def moved_def eos_def)

lemma peek_Inr: "\<not> eos st \<Longrightarrow> \<exists>c. peek st = Inr c"
  by (simp add: peek_def)

lemma prefix_length_rest: "prefix c (rest st) \<Longrightarrow> length c \<le> length (rest st)"
  by (rule prefix_length_le)

lemma indexOf_Some: "indexOf c xs = Some i \<Longrightarrow> prefix c (drop i xs)"
proof (induction xs arbitrary: i)
  case Nil
  then show ?case by (simp split: if_splits)
next
  case (Cons x xs)
  then show ?case by (auto split: if_splits)
qed

lemma indexOf_bound: "indexOf c xs = Some i \<Longrightarrow> i + length c \<le> length xs"
proof -
  assume a: "indexOf c xs = Some i"
  have "length c \<le> length (drop i xs)" using indexOf_Some[OF a] by (rule prefix_length_le)
  moreover have "i \<le> length xs" using a
  proof (induction xs arbitrary: i)
    case Nil then show ?case by (simp split: if_splits)
  next
    case (Cons x xs) then show ?case by (auto split: if_splits)
  qed
  ultimately show ?thesis by simp
qed

lemma indexOf_zero: "indexOf c xs = Some 0 \<longleftrightarrow> prefix c xs"
  by (cases xs) (auto split: if_splits)

lemma untilString_le: "untilString c inc st \<le> length (rest st)"
  by (auto simp: untilString_def dest: indexOf_bound split: option.splits)

lemma untilString_excl_zero:
  "\<not> eos st \<Longrightarrow> c \<noteq> [] \<Longrightarrow> untilString c False st = 0 \<longleftrightarrow> prefix c (rest st)"
  by (auto simp: untilString_def indexOf_zero[symmetric] rest_Nil_iff split: option.splits)

lemma untilString_incl_pos:
  "\<not> eos st \<Longrightarrow> c \<noteq> [] \<Longrightarrow> 0 < untilString c True st"
  by (auto simp: untilString_def rest_Nil_iff split: option.splits)

lemma counted_advance2: "n \<le> length (rest st) \<Longrightarrow> counted st (advance2 n st)"
  by (cases "n = 0") (simp_all add: counted_def advance2_zero advance2_fst advance2_moved)

lemma counted_advanceIfString2: "counted st (advanceIfString2 c st)"
  unfolding advanceIfString2_def by (rule counted_advance2) (simp add: prefix_length_le)

lemma length_toLowerCase: "length (toLowerCase s) = length s"
  by (simp add: toLowerCase_def)

lemma counted_advanceIfStringCaseInsensitive2: "counted st (advanceIfStringCaseInsensitive2 c st)"
  unfolding advanceIfStringCaseInsensitive2_def
proof (rule counted_advance2)
  show "(if c \<noteq> [] \<and> prefix (toLowerCase c) (toLowerCase (rest st)) then length c else 0)
      \<le> length (rest st)"
    using prefix_length_le[of "toLowerCase c" "toLowerCase (rest st)"]
    by (simp add: length_toLowerCase)
qed

lemma counted_advanceIfCharCode2: "counted st (advanceIfCharCode2 c st)"
  unfolding advanceIfCharCode2_def
  by (rule counted_advance2) (auto simp: length_rest eos_def)

lemma counted_advanceUntilString2: "counted st (advanceUntilString2 c inc st)"
  unfolding advanceUntilString2_def by (rule counted_advance2) (rule untilString_le)

lemma counted_skipWhitespace2: "counted st (skipWhitespace2 st)"
  unfolding skipWhitespace2_def by (rule counted_advance2) (rule length_takeWhile_le)

lemma counted_zero: "counted st r \<Longrightarrow> fst r = 0 \<Longrightarrow> snd r = st"
  by (simp add: counted_def)

lemma counted_pos: "counted st r \<Longrightarrow> fst r \<noteq> 0 \<Longrightarrow> moved st (snd r)"
  by (simp add: counted_def)

lemmas stay =
  counted_zero[OF counted_advanceIfString2] counted_zero[OF counted_advanceIfStringCaseInsensitive2]
  counted_zero[OF counted_advanceIfCharCode2] counted_zero[OF counted_advanceUntilString2]
  counted_zero[OF counted_skipWhitespace2]

lemmas move =
  counted_pos[OF counted_advanceIfString2] counted_pos[OF counted_advanceIfStringCaseInsensitive2]
  counted_pos[OF counted_advanceIfCharCode2] counted_pos[OF counted_advanceUntilString2]
  counted_pos[OF counted_skipWhitespace2]

text \<open>The string-returning operations: the string is empty exactly when the stream stays.\<close>


lemma taken_advance: "n \<le> length (rest st) \<Longrightarrow> taken st (advance n st)"
proof (cases "n = 0")
  case True then show ?thesis by (simp add: taken_def advance_zero)
next
  case False
  assume "n \<le> length (rest st)"
  then show ?thesis using False advance_length[of n st] advance_moved[of n st]
    by (auto simp: taken_def)
qed

lemma elementNameRegExp_le: "elementNameRegExp s = Some n \<Longrightarrow> n \<le> length s"
  by (auto simp: elementNameRegExp_def split: list.splits if_splits
      intro: le_trans[OF length_takeWhile_le])

lemma attributeNameRegExp_le: "attributeNameRegExp s = Some n \<Longrightarrow> n \<le> length s"
  by (auto simp: attributeNameRegExp_def length_takeWhile_le)

lemma attributeValueRegExp_le: "attributeValueRegExp s = Some n \<Longrightarrow> n \<le> length s"
  by (auto simp: attributeValueRegExp_def Let_def length_takeWhile_le split: if_splits)

lemma taken_advanceIfRegExp:
  assumes "\<And>s n. rx s = Some n \<Longrightarrow> n \<le> length s"
  shows "taken st (advanceIfRegExp rx st)"
  unfolding advanceIfRegExp_def
  by (rule taken_advance) (auto split: option.splits dest: assms)

lemma toLowerCase_Nil_iff: "toLowerCase s = [] \<longleftrightarrow> s = []"
  by (simp add: toLowerCase_def)

lemma taken_nextElementName: "taken st (nextElementName st)"
  using taken_advanceIfRegExp[of elementNameRegExp st, OF elementNameRegExp_le]
  by (simp add: nextElementName_def taken_def split_def Let_def toLowerCase_Nil_iff)

lemma taken_nextAttributeName: "taken st (nextAttributeName st)"
  using taken_advanceIfRegExp[of attributeNameRegExp st, OF attributeNameRegExp_le]
  by (simp add: nextAttributeName_def taken_def split_def Let_def toLowerCase_Nil_iff)

lemma taken_zero: "taken st r \<Longrightarrow> fst r = [] \<Longrightarrow> snd r = st"
  by (simp add: taken_def)

lemma taken_pos: "taken st r \<Longrightarrow> fst r \<noteq> [] \<Longrightarrow> moved st (snd r)"
  by (simp add: taken_def)

lemmas stay_name = taken_zero[OF taken_nextElementName] taken_zero[OF taken_nextAttributeName]

lemmas move_name = taken_pos[OF taken_nextElementName] taken_pos[OF taken_nextAttributeName]

subsection \<open>Every case moves a stream that is not at its end\<close>

lemma moved_trans: "moved a b \<Longrightarrow> moved b c \<Longrightarrow> moved a c"
  by (simp add: moved_def)

lemma moved_not_eos: "moved a b \<Longrightarrow> \<not> eos a"
  by (simp add: moved_def eos_def)

lemma progress_Inr [simp]: "progress st (Inr (r, s, st')) = moved st st'"
  by (simp add: progress_def)

lemma progress_Inl [simp]: "progress st (Inl e) = False"
  by (simp add: progress_def)

lemma progress_leaveSwitch: "\<not> eos st \<Longrightarrow> progress st (leaveSwitch s st)"
  using next2_moved[of st] by (auto simp: leaveSwitch_def)

lemma progress_case_until:
  assumes ne: "\<not> eos st" and c: "c \<noteq> []"
  shows "progress st
     (let (n, stream) = advanceUntilString2 c False st in
      if n \<noteq> 0 then Inr (r1, s, stream)
      else
        let (n, stream) = advanceIfString2 c stream in
        if n \<noteq> 0 then Inr (r2, s2, stream)
        else leaveSwitch s stream)"
proof (cases "fst (advanceUntilString2 c False st) = 0")
  case True
  then show ?thesis
    using progress_leaveSwitch[OF ne] by (simp add: split_def Let_def stay move)
next
  case False
  then show ?thesis by (simp add: split_def Let_def move)
qed

lemma progress_WithinComment: "\<not> eos st \<Longrightarrow> progress st (case_WithinComment s st)"
  unfolding case_WithinComment_def by (rule progress_case_until) simp_all

lemma progress_WithinDoctype: "\<not> eos st \<Longrightarrow> progress st (case_WithinDoctype s st)"
  unfolding case_WithinDoctype_def by (rule progress_case_until) simp_all

lemma moved_counted: "moved st st1 \<Longrightarrow> counted st1 r \<Longrightarrow> moved st (snd r)"
  by (auto simp: counted_def intro: moved_trans split: if_splits)

lemma progress_openTag:
  assumes "moved st st1"
  shows "progress st (openTag s st1)"
  using moved_counted[OF assms counted_advanceIfCharCode2[of st1 "CHR ''/''"]]
  by (simp add: openTag_def split_def Let_def)

lemma progress_Content: 
  assumes ne: "\<not> eos st"
  shows "progress st (case_Content s st)"
proof (cases "fst (advanceIfCharCode2 CHR ''<'' st) = 0")
  case True
  then show ?thesis using progress_leaveSwitch[OF ne]
    by (simp add: case_Content_def split_def Let_def stay)
next
  case False
  let ?st1 = "snd (advanceIfCharCode2 CHR ''<'' st)"
  have m: "moved st ?st1" using False by (rule move)
  have a: "moved st (snd (advanceIfString2 ''!--'' ?st1))"
    by (rule moved_counted[OF m counted_advanceIfString2])
  let ?st2 = "snd (advanceIfString2 ''!--'' ?st1)"
  have b: "moved st (snd (advanceIfStringCaseInsensitive2 ''!DOCTYPE'' ?st2))"
    by (rule moved_counted[OF a counted_advanceIfStringCaseInsensitive2])
  show ?thesis using False m a b
    by (simp add: case_Content_def split_def Let_def progress_openTag)
qed

lemma progress_OpeningEndTag:
  assumes ne: "\<not> eos st"
  shows "progress st (case_OpeningEndTag s st)"
proof (cases "fst (nextElementName st) = []")
  case False
  then show ?thesis by (simp add: case_OpeningEndTag_def split_def Let_def move_name)
next
  case True
  show ?thesis
  proof (cases "fst (advanceIfString2 ''>'' st) = 0")
    case False
    then show ?thesis using True
      by (simp add: case_OpeningEndTag_def split_def Let_def stay_name move)
  next
    case z2: True
    have "\<not> prefix ''>'' (rest st)"
      using z2 by (simp add: advanceIfString2_def advance2_fst split: if_splits)
    then have "untilString ''>'' False st \<noteq> 0"
      using untilString_excl_zero[OF ne, of "''>''"] by simp
    then have "fst (advanceUntilString2 ''>'' False st) \<noteq> 0"
      by (simp add: advanceUntilString2_def advance2_fst)
    then have "moved st (snd (advanceUntilString2 ''>'' False st))" by (rule move)
    then show ?thesis using True z2
      by (simp add: case_OpeningEndTag_def split_def Let_def stay_name stay)
  qed
qed

lemma progress_OpeningStartTag:
  assumes ne: "\<not> eos st"
  shows "progress st (case_OpeningStartTag s st)"
proof (cases "fst (nextElementName st) = []")
  case False
  then show ?thesis by (simp add: case_OpeningStartTag_def split_def Let_def move_name)
next
  case True
  then show ?thesis using progress_leaveSwitch[OF ne]
    by (simp add: case_OpeningStartTag_def split_def Let_def stay_name)
qed

lemma progress_closeTag:
  assumes ne: "\<not> eos st"
  shows "progress st (closeTag s st)"
proof (cases "fst (advanceIfString2 ''/>'' st) = 0")
  case False
  then show ?thesis by (simp add: closeTag_def split_def Let_def move)
next
  case True
  show ?thesis
  proof (cases "fst (advanceIfCharCode2 CHR ''>'' st) = 0")
    case False
    then show ?thesis using True by (simp add: closeTag_def split_def Let_def stay move)
  next
    case z2: True
    then show ?thesis using True next2_moved[OF ne]
      by (auto simp add: closeTag_def split_def Let_def stay)
  qed
qed

lemma progress_WithinTag:
  assumes ne: "\<not> eos st"
  shows "progress st (case_WithinTag s st)"
proof (cases "fst (skipWhitespace2 st) = 0")
  case False
  then show ?thesis by (simp add: case_WithinTag_def split_def Let_def move)
next
  case True
  show ?thesis
  proof (cases "fst (nextAttributeName st) = []")
    case False
    then show ?thesis using True ne progress_closeTag[OF ne]
      by (simp add: case_WithinTag_def split_def Let_def stay move_name)
  next
    case z2: True
    then show ?thesis using True ne progress_closeTag[OF ne]
      by (simp add: case_WithinTag_def split_def Let_def stay stay_name)
  qed
qed

lemma progress_AttributeName:
  assumes ne: "\<not> eos st"
    and self: "\<And>s. kind s = WithinTag \<Longrightarrow> progress st (this_tokenize s st)"
  shows "progress st (case_AttributeName this_tokenize s st)"
proof (cases "fst (skipWhitespace2 st) = 0")
  case False
  then show ?thesis by (simp add: case_AttributeName_def split_def Let_def move)
next
  case True
  show ?thesis
  proof (cases "fst (advanceIfCharCode2 CHR ''='' st) = 0")
    case False
    then show ?thesis using True ne by (simp add: case_AttributeName_def split_def Let_def stay move)
  next
    case z2: True
    then show ?thesis using True ne self
      by (simp add: case_AttributeName_def split_def Let_def stay)
  qed
qed

lemma progress_quotedValue:
  assumes ne: "\<not> eos st" and q: "isQuote (attributeValueQuote s)"
  shows "progress st (quotedValue s st)"
proof (cases "attributeValue s = attributeValueQuote s \<and> isEmbeddingTag (lastTagName s) \<and>
         Some ''type'' = lastAttributeName s")
  case True
  have qne: "attributeValueQuote s \<noteq> []" using q by (auto simp: isQuote_def)
  let ?n = "untilString (attributeValueQuote s) True st"
  have n: "0 < ?n" "?n \<le> length (rest st)"
    using untilString_incl_pos[OF ne qne] untilString_le by simp_all
  have "length (fst (advance ?n st)) > 0" "moved st (snd (advance ?n st))"
    using n advance_length[of ?n st] advance_moved[of ?n st] by simp_all
  then show ?thesis using True
    by (simp add: quotedValue_def advanceUntilString_def split_def Let_def)
next
  case False
  show ?thesis
  proof (cases "fst (advanceIfCharCode2 (hd (attributeValueQuote s)) st) = 0")
    case z: True
    obtain c st' where "nextChar st = Inr (c, st')" "moved st st'"
      using nextChar_moved[OF ne] by blast
    then show ?thesis unfolding quotedValue_def if_not_P[OF False] using z
      by (simp add: split_def Let_def stay)
  next
    case nz: False
    then show ?thesis unfolding quotedValue_def if_not_P[OF False]
      by (simp add: split_def Let_def move)
  qed
qed

lemma progress_unquotedValue:
  assumes ne: "\<not> eos st"
    and self: "\<And>s. kind s = WithinTag \<Longrightarrow> progress st (this_tokenize s st)"
  shows "progress st (unquotedValue this_tokenize s st)"
proof (cases "fst (advanceIfRegExp attributeValueRegExp st) = []")
  case False
  then show ?thesis
    using taken_pos[OF taken_advanceIfRegExp[of attributeValueRegExp st, OF attributeValueRegExp_le]]
    by (simp add: unquotedValue_def split_def Let_def)
next
  case True
  then have st: "snd (advanceIfRegExp attributeValueRegExp st) = st"
    using taken_zero[OF taken_advanceIfRegExp[of attributeValueRegExp st, OF attributeValueRegExp_le]]
    by simp
  obtain c where c: "peek st = Inr c" using peek_Inr[OF ne] by blast
  obtain st' where n: "next2 st = Inr st'" "moved st st'" using next2_moved[OF ne] by blast
  show ?thesis using True st c n self
    by (simp add: unquotedValue_def split_def Let_def)
qed

lemma progress_AttributeValue:
  assumes ne: "\<not> eos st"
    and self: "\<And>s. kind s = WithinTag \<Longrightarrow> progress st (this_tokenize s st)"
  shows "progress st (case_AttributeValue this_tokenize s st)"
proof (cases "fst (skipWhitespace2 st) = 0")
  case False
  then show ?thesis using ne by (simp add: case_AttributeValue_def split_def Let_def move)
next
  case True
  have u: "progress st (unquotedValue this_tokenize s st)"
    using ne self by (rule progress_unquotedValue)
  show ?thesis using True ne progress_quotedValue[OF ne] u
    by (simp add: case_AttributeValue_def split_def Let_def stay)
qed

lemma progress_State_tokenize:
  assumes ne: "\<not> eos st"
    and self: "\<And>s. kind s = WithinTag \<Longrightarrow> progress st (this_tokenize s st)"
  shows "progress st (State_tokenize this_tokenize s st)"
proof -
  have n: "progress st (case_AttributeName this_tokenize s st)"
    using ne self by (rule progress_AttributeName)
  have v: "progress st (case_AttributeValue this_tokenize s st)"
    using ne self by (rule progress_AttributeValue)
  show ?thesis
    unfolding State_tokenize_def
    using progress_WithinComment[OF ne] progress_WithinDoctype[OF ne] progress_Content[OF ne]
      progress_OpeningEndTag[OF ne] progress_OpeningStartTag[OF ne] progress_WithinTag[OF ne]
      n v progress_leaveSwitch[OF ne]
    by (simp split: States.split)
qed

lemma tokenize_depth_WithinTag:
  "kind s = WithinTag \<Longrightarrow> tokenize_depth (Suc d) s st = case_WithinTag s st"
  by (simp add: State_tokenize_def)

lemma progress_tokenize_depth:
  assumes ne: "\<not> eos st"
  shows "progress st (tokenize_depth (Suc (Suc d)) s st)"
proof -
  have "progress st (State_tokenize (tokenize_depth (Suc d)) s st)"
    by (rule progress_State_tokenize[OF ne])
      (simp only: tokenize_depth_WithinTag progress_WithinTag[OF ne])
  then show ?thesis by simp
qed

subsection \<open>The result does not depend on the room for nested calls, from two on\<close>

lemma State_tokenize_cong_WithinTag:
  assumes "\<And>s st. kind s = WithinTag \<Longrightarrow> f s st = g s st"
  shows "State_tokenize f s st = State_tokenize g s st"
  using assms
  by (simp add: State_tokenize_def case_AttributeName_def case_AttributeValue_def
      unquotedValue_def split_def Let_def split: States.split sum.split)

lemma tokenize_depth_stable: "tokenize_depth (Suc (Suc d)) s st = tokenize_depth 2 s st"
proof -
  have "State_tokenize (tokenize_depth (Suc d)) s st = State_tokenize (tokenize_depth (Suc 0)) s st"
    by (rule State_tokenize_cong_WithinTag) (simp only: tokenize_depth_WithinTag)
  then show ?thesis by (simp add: numeral_2_eq_2)
qed

subsection \<open>Progress of one call and termination of a line\<close>

lemma tokenizeLine_returns:
  "length (source st) - pos st \<le> n \<Longrightarrow> \<exists>res. tokenizeLine n s st = Some (Inr res)"
proof (induction n arbitrary: s st)
  case 0
  then show ?case by (simp add: eos_def)
next
  case (Suc n)
  show ?case
  proof (cases "eos st")
    case True
    then show ?thesis by simp
  next
    case False
    have "progress st (tokenize s st)"
      unfolding tokenize_def numeral_2_eq_2 by (rule progress_tokenize_depth[OF False])
    then obtain r s' st' where t: "tokenize s st = Inr (r, s', st')" and m: "moved st st'"
      by (auto simp: progress_def split: sum.splits)
    have "source st' = source st" "pos st < pos st'" using m by (simp_all add: moved_def)
    then have "length (source st') - pos st' \<le> n" using Suc.prems by simp
    then obtain res where "tokenizeLine n s' st' = Some (Inr res)" using Suc.IH by blast
    then show ?thesis using False t by (cases res) simp
  qed
qed

text \<open>
  Claim C2 (progress and termination): on a stream that is not at its end, one call of
  \<open>State.tokenize\<close>, started in any state, returns and leaves the stream at least one
  character further (and within the line); the method never needs more than two nested
  activations (with room for two it returns, and more room gives the same result); hence
  the repeated calls on a line reach the end of the line after at most as many calls as
  characters are left.
\<close>

theorem tokenize_progress:
  assumes "\<not> eos stream"
  shows "(\<exists>r s' stream'. tokenize s stream = Inr (r, s', stream') \<and>
            source stream' = source stream \<and> pos stream < pos stream' \<and>
            pos stream' \<le> length (source stream)) \<and>
         (\<forall>d\<ge>2. tokenize_depth d s stream = tokenize s stream) \<and>
         (\<exists>res. tokenizeLine (length (source stream) - pos stream) s stream = Some (Inr res))"
proof (intro conjI allI impI)
  have "progress stream (tokenize s stream)"
    unfolding tokenize_def numeral_2_eq_2 by (rule progress_tokenize_depth[OF assms])
  then show "\<exists>r s' stream'. tokenize s stream = Inr (r, s', stream') \<and>
            source stream' = source stream \<and> pos stream < pos stream' \<and>
            pos stream' \<le> length (source stream)"
    by (auto simp: progress_def moved_def split: sum.splits)
next
  fix d :: nat assume "2 \<le> d"
  then obtain e where "d = Suc (Suc e)" by (metis add_2_eq_Suc le_Suc_ex)
  then show "tokenize_depth d s stream = tokenize s stream"
    by (simp only: tokenize_def tokenize_depth_stable)
next
  show "\<exists>res. tokenizeLine (length (source stream) - pos stream) s stream = Some (Inr res)"
    by (rule tokenizeLine_returns) simp
qed

theorem tokenize_progress_witness:
  "\<not> eos (newStream ''>x'') \<and>
   tokenize \<lparr>kind = AttributeName, lastTagName = ''a'', lastAttributeName = Some ''b'',
        embeddedContentType = Some '''', attributeValueQuote = '''', attributeValue = ''''\<rparr>
     (newStream ''>x'') =
   Inr (delimiter DELIM_START,
        \<lparr>kind = Content, lastTagName = ''a'', lastAttributeName = Some '''',
        embeddedContentType = Some '''', attributeValueQuote = '''', attributeValue = ''''\<rparr>,
        \<lparr>source = ''>x'', pos = 1\<rparr>) \<and>
   tokenize_depth 5 \<lparr>kind = AttributeName, lastTagName = ''a'', lastAttributeName = Some ''b'',
        embeddedContentType = Some '''', attributeValueQuote = '''', attributeValue = ''''\<rparr>
     (newStream ''>x'') =
   Inr (delimiter DELIM_START,
        \<lparr>kind = Content, lastTagName = ''a'', lastAttributeName = Some '''',
        embeddedContentType = Some '''', attributeValueQuote = '''', attributeValue = ''''\<rparr>,
        \<lparr>source = ''>x'', pos = 1\<rparr>)"
proof -
  have ne: "\<not> eos (newStream ''>x'')" by (simp add: eos_def newStream_def)
  have t: "tokenize \<lparr>kind = AttributeName, lastTagName = ''a'', lastAttributeName = Some ''b'',
        embeddedContentType = Some '''', attributeValueQuote = '''', attributeValue = ''''\<rparr>
     (newStream ''>x'') =
   Inr (delimiter DELIM_START,
        \<lparr>kind = Content, lastTagName = ''a'', lastAttributeName = Some '''',
        embeddedContentType = Some '''', attributeValueQuote = '''', attributeValue = ''''\<rparr>,
        \<lparr>source = ''>x'', pos = 1\<rparr>)"
    by code_simp
  show ?thesis
    using tokenize_progress[OF ne, of "\<lparr>kind = AttributeName, lastTagName = ''a'', lastAttributeName = Some ''b'',
        embeddedContentType = Some '''', attributeValueQuote = '''', attributeValue = ''''\<rparr>"] ne t
    by simp
qed

subsection \<open>The cases of the switch at their delimiters\<close>

lemma rest_Cons: "\<not> eos st \<Longrightarrow> rest st = source st ! pos st # drop (Suc (pos st)) (source st)"
  by (simp add: rest_def eos_def Cons_nth_drop_Suc)

lemma eos_rest: "eos st \<longleftrightarrow> rest st = []"
  by (simp add: rest_Nil_iff)

lemma peek_rest: "peek st = Inr c \<longleftrightarrow> (\<exists>cs. rest st = c # cs)"
proof (cases "eos st")
  case True
  then show ?thesis by (simp add: peek_def eos_rest)
next
  case False
  then show ?thesis using rest_Cons[OF False] by (simp add: peek_def)
qed

lemma rest_advanced: "rest (st\<lparr>pos := pos st + n\<rparr>) = drop n (rest st)"
  by (simp add: rest_def add.commute)

lemma advanceIfString2_eq:
  "advanceIfString2 c st =
     (if c \<noteq> [] \<and> prefix c (rest st) then (length c, st\<lparr>pos := pos st + length c\<rparr>) else (0, st))"
  by (simp add: advanceIfString2_def advance2_def)

lemma advanceIfStringCaseInsensitive2_eq:
  "advanceIfStringCaseInsensitive2 c st =
     (if c \<noteq> [] \<and> prefix (toLowerCase c) (toLowerCase (rest st))
      then (length c, st\<lparr>pos := pos st + length c\<rparr>) else (0, st))"
  by (simp add: advanceIfStringCaseInsensitive2_def advance2_def)

lemma advanceIfCharCode2_eq:
  "advanceIfCharCode2 c st =
     (if (\<exists>cs. rest st = c # cs) then (1, st\<lparr>pos := pos st + 1\<rparr>) else (0, st))"
proof (cases "eos st")
  case True
  then show ?thesis by (simp add: advanceIfCharCode2_def advance2_def eos_rest)
next
  case False
  then show ?thesis using rest_Cons[OF False] by (simp add: advanceIfCharCode2_def advance2_def)
qed

lemma prefix_iff_take: "prefix c xs \<longleftrightarrow> take (length c) xs = c"
  by (metis append_eq_conv_conj prefix_def take_is_prefix)

lemma prefix_toLowerCase:
  "prefix (toLowerCase c) (toLowerCase xs) \<longleftrightarrow> toLowerCase (take (length c) xs) = toLowerCase c"
  by (simp add: prefix_iff_take toLowerCase_def take_map)

lemma toLowerCase_DOCTYPE: "toLowerCase ''!DOCTYPE'' = ''!doctype''"
  by code_simp

lemma charToLowerCase_bang: "charToLowerCase c = CHR ''!'' \<longleftrightarrow> c = CHR ''!''"
proof
  assume a: "charToLowerCase c = CHR ''!''"
  show "c = CHR ''!''"
  proof (cases "isUpper c")
    case True
    then have "code c + 32 < 256" by (auto simp: isUpper_def)
    then have "code (char_of (code c + 32)) = code c + 32" by (simp add: code_def)
    moreover have "code (charToLowerCase c) = 33" using a by (simp add: code_def)
    ultimately show ?thesis using True by (simp add: charToLowerCase_def isUpper_def)
  next
    case False
    then show ?thesis using a by (simp add: charToLowerCase_def)
  qed
next
  assume "c = CHR ''!''"
  then show "charToLowerCase c = CHR ''!''" by (simp add: charToLowerCase_def isUpper_def code_def)
qed

text \<open>
  Claim C1 (the \<open>Content\<close> state at \<open><\<close>): in state \<open>Content\<close>, on a stream whose next
  character is \<open><\<close>, \<open>State.tokenize\<close> consumes the delimiter: when the characters
  after \<open><\<close> are \<open>!--\<close> it moves over all four, the kind becomes \<open>WithinComment\<close> and
  the token is \<open>DELIM_COMMENT\<close>; when they spell \<open>!DOCTYPE\<close> in any letter case it
  moves over all nine, the kind becomes \<open>WithinDoctype\<close> and the token is
  \<open>DELIM_DOCTYPE\<close>; when the next character is \<open>/\<close> it moves over both, the kind
  becomes \<open>OpeningEndTag\<close> and the token is \<open>DELIM_END\<close>; otherwise it moves over
  \<open><\<close> alone, the kind becomes \<open>OpeningStartTag\<close> and the token is \<open>DELIM_START\<close>.
\<close>

theorem Content_open_angle:
  assumes k: "kind s = Content" and lt: "peek stream = Inr (CHR ''<'')"
  shows "tokenize s stream =
     (let after = drop 1 (rest stream) in
      if take 3 after = ''!--''
      then Inr (delimiter DELIM_COMMENT, s\<lparr>kind := WithinComment\<rparr>, stream\<lparr>pos := pos stream + 4\<rparr>)
      else if toLowerCase (take 8 after) = ''!doctype''
      then Inr (delimiter DELIM_DOCTYPE, s\<lparr>kind := WithinDoctype\<rparr>, stream\<lparr>pos := pos stream + 9\<rparr>)
      else if take 1 after = ''/''
      then Inr (delimiter DELIM_END, s\<lparr>kind := OpeningEndTag\<rparr>, stream\<lparr>pos := pos stream + 2\<rparr>)
      else Inr (delimiter DELIM_START, s\<lparr>kind := OpeningStartTag\<rparr>, stream\<lparr>pos := pos stream + 1\<rparr>))"
proof -
  define st1 where "st1 = stream\<lparr>pos := pos stream + 1\<rparr>"
  define after where "after = drop 1 (rest stream)"
  define A where "A = (take 3 after = ''!--'')"
  define B where "B = (toLowerCase (take 8 after) = ''!doctype'')"
  define C where "C = (take 1 after = ''/'')"
  define G where "G = (\<not> eos st1 \<and> peek st1 = Inr (CHR ''!''))"
  have r1: "rest st1 = after" unfolding st1_def after_def by (rule rest_advanced)
  have t: "tokenize s stream = case_Content s stream"
    using k by (simp add: tokenize_def numeral_2_eq_2 State_tokenize_def)
  have lt': "advanceIfCharCode2 CHR ''<'' stream = (1, st1)"
    using lt by (simp add: advanceIfCharCode2_eq peek_rest st1_def)
  have l3: "length ''!--'' = 3" and l8: "length ''!DOCTYPE'' = 8" by simp_all
  have fA: "advanceIfString2 ''!--'' st1 = (if A then (3, stream\<lparr>pos := pos stream + 4\<rparr>) else (0, st1))"
    unfolding advanceIfString2_eq r1 A_def prefix_iff_take l3 by (simp add: st1_def)
  have fB: "advanceIfStringCaseInsensitive2 ''!DOCTYPE'' st1 =
      (if B then (8, stream\<lparr>pos := pos stream + 9\<rparr>) else (0, st1))"
  proof -
    have "prefix (toLowerCase ''!DOCTYPE'') (toLowerCase after) = B"
      using prefix_toLowerCase[of "''!DOCTYPE''" after] unfolding l8 toLowerCase_DOCTYPE B_def .
    then show ?thesis unfolding advanceIfStringCaseInsensitive2_eq r1 l8 by (simp add: st1_def)
  qed
  have fC: "advanceIfCharCode2 CHR ''/'' st1 =
      (if C then (1, stream\<lparr>pos := pos stream + 2\<rparr>) else (0, st1))"
  proof -
    have "(\<exists>cs. after = CHR ''/'' # cs) = C" unfolding C_def by (cases after) auto
    then show ?thesis unfolding advanceIfCharCode2_eq r1 by (simp add: st1_def)
  qed
  have G: "G = (\<exists>cs. after = CHR ''!'' # cs)"
    unfolding G_def peek_rest eos_rest r1 by auto
  have nG: "\<not> A \<and> \<not> B" if "\<not> G"
  proof -
    have "take 3 after \<noteq> ''!--''" using that unfolding G by (cases after) auto
    moreover have "toLowerCase (take 8 after) \<noteq> ''!doctype''"
      using that unfolding G by (cases after) (auto simp: toLowerCase_def charToLowerCase_bang)
    ultimately show ?thesis by (simp add: A_def B_def)
  qed
  have open1: "openTag s st1 =
     (if C then Inr (delimiter DELIM_END, s\<lparr>kind := OpeningEndTag\<rparr>, stream\<lparr>pos := pos stream + 2\<rparr>)
      else Inr (delimiter DELIM_START, s\<lparr>kind := OpeningStartTag\<rparr>, stream\<lparr>pos := pos stream + 1\<rparr>))"
    unfolding openTag_def fC by (simp add: st1_def)
  have "case_Content s stream =
     (if A then Inr (delimiter DELIM_COMMENT, s\<lparr>kind := WithinComment\<rparr>, stream\<lparr>pos := pos stream + 4\<rparr>)
      else if B then Inr (delimiter DELIM_DOCTYPE, s\<lparr>kind := WithinDoctype\<rparr>, stream\<lparr>pos := pos stream + 9\<rparr>)
      else openTag s st1)"
  proof (cases G)
    case True
    then show ?thesis
      unfolding case_Content_def lt' split_conv Let_def G_def[symmetric] by (simp add: fA fB)
  next
    case False
    then show ?thesis
      unfolding case_Content_def lt' split_conv Let_def G_def[symmetric] using nG[OF False] by simp
  qed
  then show ?thesis unfolding t open1 Let_def after_def[symmetric] A_def B_def C_def by simp
qed

theorem Content_open_angle_witness:
  "kind \<lparr>kind = Content, lastTagName = '''', lastAttributeName = Some '''',
      embeddedContentType = Some '''', attributeValueQuote = '''', attributeValue = ''''\<rparr> = Content \<and>
   peek (newStream ''a<!DocType html>''\<lparr>pos := 1\<rparr>) = Inr (CHR ''<'') \<and>
   tokenize \<lparr>kind = Content, lastTagName = '''', lastAttributeName = Some '''',
      embeddedContentType = Some '''', attributeValueQuote = '''', attributeValue = ''''\<rparr>
     (newStream ''a<!DocType html>''\<lparr>pos := 1\<rparr>) =
   Inr (delimiter DELIM_DOCTYPE,
     \<lparr>kind = WithinDoctype, lastTagName = '''', lastAttributeName = Some '''',
      embeddedContentType = Some '''', attributeValueQuote = '''', attributeValue = ''''\<rparr>,
     \<lparr>source = ''a<!DocType html>'', pos = 10\<rparr>)"
proof -
  have p: "peek (newStream ''a<!DocType html>''\<lparr>pos := 1\<rparr>) = Inr (CHR ''<'')"
    by (simp add: peek_def eos_def newStream_def)
  have t: "tokenize \<lparr>kind = Content, lastTagName = '''', lastAttributeName = Some '''',
      embeddedContentType = Some '''', attributeValueQuote = '''', attributeValue = ''''\<rparr>
     (newStream ''a<!DocType html>''\<lparr>pos := 1\<rparr>) =
   Inr (delimiter DELIM_DOCTYPE,
     \<lparr>kind = WithinDoctype, lastTagName = '''', lastAttributeName = Some '''',
      embeddedContentType = Some '''', attributeValueQuote = '''', attributeValue = ''''\<rparr>,
     \<lparr>source = ''a<!DocType html>'', pos = 10\<rparr>)"
    by code_simp
  show ?thesis
    using Content_open_angle[OF _ p, of "\<lparr>kind = Content, lastTagName = '''',
      lastAttributeName = Some '''', embeddedContentType = Some '''', attributeValueQuote = '''',
      attributeValue = ''''\<rparr>"] p t
    by simp
qed

lemma skipWhitespace2_none:
  assumes "rest st = c # cs" "\<not> isStreamWhitespace c"
  shows "skipWhitespace2 st = (0, st)"
  using assms by (simp add: skipWhitespace2_def advance2_def)

lemma nextAttributeName_close: 
  assumes "rest st = CHR ''>'' # cs"
  shows "nextAttributeName st = ([], st)"
  using assms
  by (simp add: nextAttributeName_def advanceIfRegExp_def attributeNameRegExp_def advance_def
      eos_rest toLowerCase_def)

lemma closeTag_close:
  assumes "rest st = CHR ''>'' # cs"
  shows "closeTag s st =
     Inr (delimiter DELIM_START,
          s\<lparr>kind := (if lastTagName s = ''script'' \<or> lastTagName s = ''style''
                      then WithinEmbeddedContent else Content)\<rparr>,
          st\<lparr>pos := pos st + 1\<rparr>)"
  using assms
  by (simp add: closeTag_def advanceIfString2_eq advanceIfCharCode2_eq tagsEmbeddingContent_def)

lemma enterNestedMode_iff:
  "enterNestedMode state \<longleftrightarrow>
     (\<exists>h. (state = HTMLState h \<or> state = RAZORState h) \<and> kind h = WithinEmbeddedContent)"
  by (cases state) (auto simp: enterNestedMode_def)

text \<open>
  Claim C4 (entering embedded content): in state \<open>WithinTag\<close>, on a stream whose next
  character is \<open>>\<close>, \<open>State.tokenize\<close> moves over it and returns \<open>DELIM_START\<close>;
  the kind becomes \<open>WithinEmbeddedContent\<close> exactly when \<open>lastTagName\<close> is \<open>script\<close> or
  \<open>style\<close>, and \<open>Content\<close> otherwise. \<open>HTMLMode.enterNestedMode\<close> is true exactly of the
  instances of \<open>State\<close> (HTML or Razor) whose kind is \<open>WithinEmbeddedContent\<close>.
\<close>

theorem WithinTag_close_angle:
  "(kind s = WithinTag \<and> peek stream = Inr (CHR ''>'') \<longrightarrow>
      tokenize s stream =
        Inr (delimiter DELIM_START,
             s\<lparr>kind := (if lastTagName s = ''script'' \<or> lastTagName s = ''style''
                         then WithinEmbeddedContent else Content)\<rparr>,
             stream\<lparr>pos := pos stream + 1\<rparr>)) \<and>
   (enterNestedMode state \<longleftrightarrow>
      (\<exists>h. (state = HTMLState h \<or> state = RAZORState h) \<and> kind h = WithinEmbeddedContent))"
proof (intro conjI impI)
  assume a: "kind s = WithinTag \<and> peek stream = Inr (CHR ''>'')"
  then obtain cs where r: "rest stream = CHR ''>'' # cs" by (auto simp: peek_rest)
  have ne: "\<not> eos stream" using r by (simp add: eos_rest)
  have ws: "skipWhitespace2 stream = (0, stream)"
    by (rule skipWhitespace2_none[OF r]) (simp add: isStreamWhitespace_def code_def)
  have "tokenize s stream = case_WithinTag s stream"
    using a by (simp add: tokenize_def numeral_2_eq_2 State_tokenize_def)
  also have "\<dots> = closeTag s stream"
    by (simp add: case_WithinTag_def ws ne nextAttributeName_close[OF r])
  finally show "tokenize s stream =
        Inr (delimiter DELIM_START,
             s\<lparr>kind := (if lastTagName s = ''script'' \<or> lastTagName s = ''style''
                         then WithinEmbeddedContent else Content)\<rparr>,
             stream\<lparr>pos := pos stream + 1\<rparr>)"
    by (simp only: closeTag_close[OF r])
next
  show "enterNestedMode state \<longleftrightarrow>
      (\<exists>h. (state = HTMLState h \<or> state = RAZORState h) \<and> kind h = WithinEmbeddedContent)"
    by (rule enterNestedMode_iff)
qed

theorem WithinTag_close_angle_witness:
  "kind \<lparr>kind = WithinTag, lastTagName = ''script'', lastAttributeName = Some '''',
      embeddedContentType = None, attributeValueQuote = '''', attributeValue = ''''\<rparr> = WithinTag \<and>
   peek (newStream ''>var x;'') = Inr (CHR ''>'') \<and>
   tokenize \<lparr>kind = WithinTag, lastTagName = ''script'', lastAttributeName = Some '''',
      embeddedContentType = None, attributeValueQuote = '''', attributeValue = ''''\<rparr>
     (newStream ''>var x;'') =
   Inr (delimiter DELIM_START,
     \<lparr>kind = WithinEmbeddedContent, lastTagName = ''script'', lastAttributeName = Some '''',
      embeddedContentType = None, attributeValueQuote = '''', attributeValue = ''''\<rparr>,
     \<lparr>source = ''>var x;'', pos = 1\<rparr>) \<and>
   enterNestedMode (RAZORState \<lparr>kind = WithinEmbeddedContent, lastTagName = ''script'',
      lastAttributeName = Some '''', embeddedContentType = None, attributeValueQuote = '''',
      attributeValue = ''''\<rparr>) \<and>
   \<not> enterNestedMode OtherState"
proof -
  have p: "peek (newStream ''>var x;'') = Inr (CHR ''>'')"
    by (simp add: peek_def eos_def newStream_def)
  show ?thesis
    using WithinTag_close_angle[of "\<lparr>kind = WithinTag, lastTagName = ''script'',
        lastAttributeName = Some '''', embeddedContentType = None, attributeValueQuote = '''',
        attributeValue = ''''\<rparr>" "newStream ''>var x;''" OtherState]
      WithinTag_close_angle[of "\<lparr>kind = WithinTag, lastTagName = ''script'',
        lastAttributeName = Some '''', embeddedContentType = None, attributeValueQuote = '''',
        attributeValue = ''''\<rparr>" "newStream ''>var x;''"
        "RAZORState \<lparr>kind = WithinEmbeddedContent, lastTagName = ''script'',
          lastAttributeName = Some '''', embeddedContentType = None, attributeValueQuote = '''',
          attributeValue = ''''\<rparr>"] p
    by (simp add: newStream_def)
qed

subsection \<open>Razor and HTML\<close>

lemma case_AttributeName_same_stream:
  assumes "\<And>s'. f s' st = g s' st"
  shows "case_AttributeName f s st = case_AttributeName g s st"
proof (cases "fst (skipWhitespace2 st) = 0")
  case False
  then show ?thesis by (simp add: case_AttributeName_def split_def Let_def)
next
  case True
  note w = stay(5)[OF True]
  show ?thesis
  proof (cases "fst (advanceIfCharCode2 CHR ''='' st) = 0")
    case False
    then show ?thesis using True by (simp add: case_AttributeName_def split_def Let_def w)
  next
    case e: True
    show ?thesis using True e assms
      by (simp add: case_AttributeName_def split_def Let_def w stay(3)[OF e])
  qed
qed

lemma unquotedValue_same_stream:
  assumes "\<And>s'. f s' st = g s' st"
  shows "unquotedValue f s st = unquotedValue g s st"
proof (cases "fst (advanceIfRegExp attributeValueRegExp st) = []")
  case True
  then have "snd (advanceIfRegExp attributeValueRegExp st) = st"
    using taken_zero[OF taken_advanceIfRegExp[of attributeValueRegExp st, OF attributeValueRegExp_le]]
    by simp
  then show ?thesis using assms True
    by (simp add: unquotedValue_def split_def Let_def split: sum.split)
next
  case False
  then show ?thesis by (simp add: unquotedValue_def split_def Let_def)
qed

lemma case_AttributeValue_same_stream:
  assumes "\<And>s'. f s' st = g s' st"
  shows "case_AttributeValue f s st = case_AttributeValue g s st"
proof -
  have "unquotedValue f s st = unquotedValue g s st"
    using assms by (rule unquotedValue_same_stream)
  then show ?thesis
  proof (cases "fst (skipWhitespace2 st) = 0")
    case False
    then show ?thesis by (simp add: case_AttributeValue_def split_def Let_def)
  next
    case True
    assume "unquotedValue f s st = unquotedValue g s st"
    then show ?thesis using True
      by (simp add: case_AttributeValue_def split_def Let_def stay(5)[OF True])
  qed
qed

lemma State_tokenize_same_stream:
  assumes "\<And>s'. f s' st = g s' st"
  shows "State_tokenize f s st = State_tokenize g s st"
proof -
  have "case_AttributeName f s st = case_AttributeName g s st"
    using assms by (rule case_AttributeName_same_stream)
  moreover have "case_AttributeValue f s st = case_AttributeValue g s st"
    using assms by (rule case_AttributeValue_same_stream)
  ultimately show ?thesis by (simp add: State_tokenize_def split: States.split)
qed

lemma razor_depth_refines:
  assumes "eos stream \<or> peek stream \<noteq> Inr (CHR ''@'')"
  shows "razor_tokenize_depth d s stream = tokenize_depth d s stream"
proof (induction d arbitrary: s)
  case 0
  show ?case by simp
next
  case (Suc d)
  have "razor_tokenize_depth (Suc d) s stream = State_tokenize (razor_tokenize_depth d) s stream"
    using assms by (auto simp: RAZORState_tokenize_def)
  also have "\<dots> = State_tokenize (tokenize_depth d) s stream"
    by (rule State_tokenize_same_stream) (rule Suc.IH)
  finally show ?case by simp
qed

text \<open>
  Claim C3 (Razor refines HTML): on a stream that is at its end or whose next character
  is not \<open>@\<close>, \<open>RAZORState.tokenize\<close> returns exactly what the HTML
  \<open>State.tokenize\<close> returns on the same stream and the same fields (the token, the new
  state and the new stream), whatever the room for nested calls; the two differ only on
  streams whose next character is \<open>@\<close>.
\<close>

theorem razor_refines_html:
  assumes "eos stream \<or> peek stream \<noteq> Inr (CHR ''@'')"
  shows "razor_tokenize s stream = tokenize s stream \<and>
         (\<forall>d. razor_tokenize_depth d s stream = tokenize_depth d s stream)"
  using razor_depth_refines[OF assms] by (simp add: razor_tokenize_def tokenize_def)


theorem razor_refines_html_witness:
  "(eos (newStream ''>@x'') \<or> peek (newStream ''>@x'') \<noteq> Inr (CHR ''@'')) \<and>
   razor_tokenize \<lparr>kind = AttributeValue, lastTagName = ''a'', lastAttributeName = Some ''b'',
      embeddedContentType = Some '''', attributeValueQuote = '''', attributeValue = ''''\<rparr>
     (newStream ''>@x'') =
   Inr (delimiter DELIM_START,
     \<lparr>kind = Content, lastTagName = ''a'', lastAttributeName = None,
      embeddedContentType = Some '''', attributeValueQuote = '''', attributeValue = ''''\<rparr>,
     \<lparr>source = ''>@x'', pos = 1\<rparr>) \<and>
   tokenize \<lparr>kind = AttributeValue, lastTagName = ''a'', lastAttributeName = Some ''b'',
      embeddedContentType = Some '''', attributeValueQuote = '''', attributeValue = ''''\<rparr>
     (newStream ''>@x'') =
   Inr (delimiter DELIM_START,
     \<lparr>kind = Content, lastTagName = ''a'', lastAttributeName = None,
      embeddedContentType = Some '''', attributeValueQuote = '''', attributeValue = ''''\<rparr>,
     \<lparr>source = ''>@x'', pos = 1\<rparr>)"
proof -
  have p: "eos (newStream ''>@x'') \<or> peek (newStream ''>@x'') \<noteq> Inr (CHR ''@'')"
    by (simp add: peek_def eos_def newStream_def)
  have t: "tokenize \<lparr>kind = AttributeValue, lastTagName = ''a'', lastAttributeName = Some ''b'',
      embeddedContentType = Some '''', attributeValueQuote = '''', attributeValue = ''''\<rparr>
     (newStream ''>@x'') =
   Inr (delimiter DELIM_START,
     \<lparr>kind = Content, lastTagName = ''a'', lastAttributeName = None,
      embeddedContentType = Some '''', attributeValueQuote = '''', attributeValue = ''''\<rparr>,
     \<lparr>source = ''>@x'', pos = 1\<rparr>)"
    by code_simp
  show ?thesis
    using razor_refines_html[OF p, of "\<lparr>kind = AttributeValue, lastTagName = ''a'',
      lastAttributeName = Some ''b'', embeddedContentType = Some '''', attributeValueQuote = '''',
      attributeValue = ''''\<rparr>"] p t
    by simp
qed

subsection \<open>Leaving a nested mode\<close>

lemma substring_split: "substring line 0 i @ substringFrom line i = line"
  by (simp add: substring_def substringFrom_def)












subsection \<open>The tag names the tokenizers store are modelled\<close>

text \<open>
  \<open>nextElementName\<close> only yields letters, digits and \<open>_ : - .\<close>, so every state reached
  by tokenizing has a tag name whose regular expression is modelled.
\<close>

lemma closingTagPattern_inModel:
  "inModel tagName \<longleftrightarrow> (\<exists>atoms. closingTagPattern tagName = Inr atoms)"
  by (auto simp: inModel_def closingTagPattern_def)

lemma char_code_eq: "c = d \<longleftrightarrow> code c = code d"
  by (simp add: code_def)

lemma isSyntaxCharacter_code:
  "isSyntaxCharacter c \<longleftrightarrow>
     code c \<in> {94, 36, 92, 46, 42, 43, 63, 40, 41, 91, 93, 123, 125, 124}"
  unfolding isSyntaxCharacter_def by (simp add: char_code_eq[of c] code_def)

lemma nameChar_lower_inModel:
  assumes "nameChar c" "isSyntaxCharacter (charToLowerCase c)"
  shows "charToLowerCase c = CHR ''.''"
proof (cases "isUpper c")
  case True
  have "65 \<le> code c \<and> code c \<le> 90"
    using assms(1) True
    by (auto simp: nameChar_def isWordChar_def isUpper_def char_code_eq[of c] code_def)
  then have "code (charToLowerCase c) = code c + 32" "97 \<le> code c + 32" "code c + 32 \<le> 122"
    using True by (simp_all add: charToLowerCase_def code_def)
  then show ?thesis using assms(2) by (simp add: isSyntaxCharacter_code)
next
  case False
  then have "charToLowerCase c = c" by (simp add: charToLowerCase_def)
  then show ?thesis using assms
    by (auto simp: nameChar_def isWordChar_def isSyntaxCharacter_code char_code_eq[of c] code_def)
qed

lemma elementName_chars:
  assumes "elementNameRegExp s = Some n"
  shows "\<forall>c \<in> set (take n s). nameChar c"
proof (cases s)
  case Nil
  then show ?thesis by simp
next
  case (Cons x xs)
  let ?P = "\<lambda>c. c = CHR ''_'' \<or> c = CHR '':'' \<or> isWordChar c \<or> c = CHR ''-'' \<or> c = CHR ''.''"
  have n: "n = Suc (length (takeWhile ?P xs))" and x: "nameChar x"
    using assms Cons by (auto simp: elementNameRegExp_def nameChar_def split: if_splits)
  have "take (length (takeWhile ?P xs)) xs = takeWhile ?P xs"
    by (metis takeWhile_eq_take)
  then have "set (take n s) = insert x (set (takeWhile ?P xs))"
    using n Cons by simp
  moreover have "\<forall>c \<in> set (takeWhile ?P xs). nameChar c"
    by (auto dest: set_takeWhileD simp: nameChar_def)
  ultimately show ?thesis using x by simp
qed

lemma nextElementName_inModel: "inModel (fst (nextElementName st))"
proof -
  have "\<forall>c \<in> set (fst (advanceIfRegExp elementNameRegExp st)). nameChar c"
  proof (cases "eos st \<or> elementNameRegExp (rest st) = None")
    case True
    then show ?thesis by (auto simp: advanceIfRegExp_def advance_def)
  next
    case False
    then obtain n where "elementNameRegExp (rest st) = Some n" by auto
    then show ?thesis using False elementName_chars[of "rest st" n]
      by (simp add: advanceIfRegExp_def advance_def)
  qed
  then show ?thesis
    using nameChar_lower_inModel
    by (auto simp: nextElementName_def split_def Let_def inModel_def toLowerCase_def)
qed

lemma tagNameInModel_Inr [simp]: "tagNameInModel (Inr (r, s, st)) = inModel (lastTagName s)"
  by (simp add: tagNameInModel_def)

lemma tagNameInModel_Inl [simp]: "tagNameInModel (Inl e)"
  by (simp add: tagNameInModel_def)

lemma inModel_leaveSwitch: "inModel (lastTagName s) \<Longrightarrow> tagNameInModel (leaveSwitch s st)"
  by (simp add: leaveSwitch_def split: sum.splits)

lemma inModel_closeTag: "inModel (lastTagName s) \<Longrightarrow> tagNameInModel (closeTag s st)"
  by (simp add: closeTag_def split_def Let_def split: sum.splits)

lemma inModel_openTag: "inModel (lastTagName s) \<Longrightarrow> tagNameInModel (openTag s st)"
  by (simp add: openTag_def split_def Let_def)

lemma inModel_quotedValue: "inModel (lastTagName s) \<Longrightarrow> tagNameInModel (quotedValue s st)"
  by (simp add: quotedValue_def split_def Let_def leaveSwitch_def split: sum.splits)

lemma inModel_Nil: "inModel []"
  by (simp add: inModel_def)

lemma inModel_OpeningStartTag: "tagNameInModel (case_OpeningStartTag s st)"
  using nextElementName_inModel[of st]
  by (simp add: case_OpeningStartTag_def split_def Let_def leaveSwitch_def inModel_Nil
      split: sum.splits)

lemma inModel_State_tokenize:
  assumes s: "inModel (lastTagName s)"
    and f: "\<And>s' st'. inModel (lastTagName s') \<Longrightarrow> tagNameInModel (f s' st')"
  shows "tagNameInModel (State_tokenize f s st)"
proof (cases "kind s")
  case Content
  then show ?thesis using s inModel_openTag inModel_leaveSwitch
    by (simp add: State_tokenize_def case_Content_def split_def Let_def)
next
  case OpeningStartTag
  then show ?thesis using inModel_OpeningStartTag by (simp add: State_tokenize_def)
next
  case OpeningEndTag
  then show ?thesis using s
    by (simp add: State_tokenize_def case_OpeningEndTag_def split_def Let_def)
next
  case WithinDoctype
  then show ?thesis using s inModel_leaveSwitch
    by (simp add: State_tokenize_def case_WithinDoctype_def split_def Let_def)
next
  case WithinTag
  then show ?thesis using s inModel_closeTag
    by (simp add: State_tokenize_def case_WithinTag_def split_def Let_def)
next
  case WithinComment
  then show ?thesis using s inModel_leaveSwitch
    by (simp add: State_tokenize_def case_WithinComment_def split_def Let_def)
next
  case WithinEmbeddedContent
  then show ?thesis using s inModel_leaveSwitch by (simp add: State_tokenize_def)
next
  case AttributeName
  then show ?thesis using s f
    by (simp add: State_tokenize_def case_AttributeName_def split_def Let_def)
next
  case AttributeValue
  have "tagNameInModel (unquotedValue f s st')" for st'
    using s f by (simp add: unquotedValue_def split_def Let_def split: sum.splits)
  then show ?thesis using AttributeValue s inModel_quotedValue
    by (simp add: State_tokenize_def case_AttributeValue_def split_def Let_def)
qed

lemma inModel_tokenize_depth:
  "inModel (lastTagName s) \<Longrightarrow> tagNameInModel (tokenize_depth d s st)"
proof (induction d arbitrary: s st)
  case 0
  show ?case by simp
next
  case (Suc d)
  show ?case unfolding tokenize_depth.simps
    by (rule inModel_State_tokenize[OF Suc.prems]) (rule Suc.IH)
qed

lemma inModel_razor_tokenize_depth:
  "inModel (lastTagName s) \<Longrightarrow> tagNameInModel (razor_tokenize_depth d s st)"
proof (induction d arbitrary: s st)
  case 0
  show ?case by simp
next
  case (Suc d)
  have "tagNameInModel (State_tokenize (razor_tokenize_depth d) s st')" for st'
    by (rule inModel_State_tokenize[OF Suc.prems]) (rule Suc.IH)
  then show ?case using Suc.prems
    by (simp add: RAZORState_tokenize_def split: sum.splits)
qed

lemma tokenizeLine_inModel:
  "inModel (lastTagName s) \<Longrightarrow> tokenizeLine n s st = Some (Inr (rs, s')) \<Longrightarrow>
     inModel (lastTagName s')"
proof (induction n arbitrary: s st rs)
  case 0
  then show ?case by (simp split: if_splits)
next
  case (Suc n)
  show ?case
  proof (cases "eos st")
    case True
    then show ?thesis using Suc.prems by simp
  next
    case False
    then obtain r s1 st1 where t: "tokenize s st = Inr (r, s1, st1)"
      using Suc.prems(2) by (auto split: sum.splits)
    have m: "inModel (lastTagName s1)"
      using inModel_tokenize_depth[OF Suc.prems(1), of 2 st] t by (simp add: tokenize_def)
    obtain rs1 where "tokenizeLine n s1 st1 = Some (Inr (rs1, s'))"
      using Suc.prems(2) False t by (auto split: option.splits sum.splits)
    then show ?thesis using Suc.IH[OF m] by blast
  qed
qed

lemma tokenized_states_in_model:
  assumes "tokenizeLine n emptyContentState (newStream line) = Some (Inr (rs, s))"
  shows "getLeavingNestedModeData line' s \<noteq> Inl PatternOutsideModel"
proof -
  have "inModel (lastTagName s)"
    using tokenizeLine_inModel[OF _ assms] by (simp add: emptyContentState_def inModel_Nil)
  then show ?thesis
    by (auto simp: closingTagPattern_inModel getLeavingNestedModeData_def Let_def split: option.splits)
qed

section \<open>Properties of the configuration service\<close>

lemma bulkFetch_nothing:
  assumes "(\<exists>err. resolveStat env (toResource env (workspaceSettingsRootFolder svc)) = Inl err \<and> truthy err) \<or>
           (\<exists>stat. resolveStat env (toResource env (workspaceSettingsRootFolder svc)) = Inr stat \<and>
              \<not> isDirectory stat)"
  shows "bulkFetch env svc = Inr (Some [])"
  using assms by (auto simp: bulkFetch_def)

lemma load_nothing:
  assumes "bulkFetchFromWorkspacePromise svc = None"
    and "bulkFetch env svc = Inr (Some [])"
  shows "loadWorkspaceConfiguration env svc =
           (Inr (workspaceFilePathToConfiguration svc),
            svc\<lparr>bulkFetchFromWorkspacePromise := Some (Inr ())\<rparr>)"
  using assms by (simp add: loadWorkspaceConfiguration_def recordContents_def Let_def)

lemma mergeConfiguration_store:
  assumes g: "objects h (getDefaultValues env) = Some G"
  shows "\<exists>res h'. mergeConfiguration env h values' = (res, h') \<and>
           merged res = nextRef h \<and> globals res = getDefaultValues env \<and>
           consolidated res = consolidate env values' \<and>
           objects h' = (objects h)(nextRef h \<mapsto> G ++ contents (consolidate env values'))"
  using g by (simp add: mergeConfiguration_def clone_def mixin_def Let_def)

lemma missingFolder_simps:
  "resolveStat missingFolder r = Inl Truthy"
  "toResource missingFolder p = ''/w/'' @ p"
  "getDefaultValues missingFolder = 0"
  "contents (consolidate missingFolder files) =
     (\<lambda>k. case files k of Some (Some text) \<Rightarrow> Some text | _ \<Rightarrow> None)"
  by (simp_all add: missingFolder_def)

lemma recorded_file:
  "handleFileEvents missingFolder
     [\<lparr>change_resource = ''/w/.vscode/settings.json'', change_type = ADDED\<rparr>]
     (ConfigurationService_new ''.vscode'') =
   (\<lparr>workspaceSettingsRootFolder = ''.vscode'', cachedConfig = None,
     bulkFetchFromWorkspacePromise = None,
     workspaceFilePathToConfiguration = [''.vscode/settings.json'' \<mapsto> Some ''{}'']\<rparr>, True)"
  by (simp add: handleFileEvents_def handleFileEvent_def ConfigurationService_new_def
      missingFolder_def suffix_def)

text \<open>
  Claim C5, as amended (a missing configuration is treated as empty): on a service that
  has not fetched yet, if resolving the stat of the workspace settings folder fails with
  a truthy error, or the resolved stat is not a directory, then
  \<open>loadWorkspaceConfiguration\<close> adds no configuration file and is fulfilled with the map of
  the files recorded so far by file events (it does not reject for this reason); this
  map is empty when no file has been recorded, as after the constructor or the reset of
  \<open>loadConfiguration\<close>, and consequently the merged configuration then has the properties
  of the global default values alone (given that the consolidation of no files has no
  contents).

  The claim as stated promises the empty map whenever the stat fails; the counterexample
  after the witness is a service on which a file event has recorded a file before the
  first fetch. A rejection of the stat with a falsy value is left out of the amended
  claim; the lemma after the counterexample shows what the source does with it.
\<close>

theorem missing_folder_adds_nothing:
  assumes "bulkFetchFromWorkspacePromise svc = None"
    and "(\<exists>err. resolveStat env (toResource env (workspaceSettingsRootFolder svc)) = Inl err \<and> truthy err) \<or>
         (\<exists>stat. resolveStat env (toResource env (workspaceSettingsRootFolder svc)) = Inr stat \<and>
            \<not> isDirectory stat)"
  shows "loadWorkspaceConfiguration env svc =
           (Inr (workspaceFilePathToConfiguration svc),
            svc\<lparr>bulkFetchFromWorkspacePromise := Some (Inr ())\<rparr>) \<and>
         (workspaceFilePathToConfiguration svc = Map.empty \<longrightarrow>
            fst (loadWorkspaceConfiguration env svc) = Inr Map.empty \<and>
            (contents (consolidate env Map.empty) = Map.empty \<and>
             objects h (getDefaultValues env) = Some G \<longrightarrow>
               (\<exists>res svc' h'. doLoadConfiguration env svc h = (Inr res, svc', h') \<and>
                  objects h' (merged res) = Some G)))"
proof -
  have l: "loadWorkspaceConfiguration env svc =
           (Inr (workspaceFilePathToConfiguration svc),
            svc\<lparr>bulkFetchFromWorkspacePromise := Some (Inr ())\<rparr>)"
    using assms(1) bulkFetch_nothing[OF assms(2)] by (rule load_nothing)
  have "\<exists>res svc' h'. doLoadConfiguration env svc h = (Inr res, svc', h') \<and>
                  objects h' (merged res) = Some G"
    if e: "workspaceFilePathToConfiguration svc = Map.empty"
      and c: "contents (consolidate env Map.empty) = Map.empty"
      and g: "objects h (getDefaultValues env) = Some G"
  proof -
    obtain res h' where m: "mergeConfiguration env h Map.empty = (res, h')"
      and r: "merged res = nextRef h"
      and o: "objects h' = (objects h)(nextRef h \<mapsto> G ++ contents (consolidate env Map.empty))"
      using mergeConfiguration_store[OF g, of Map.empty] by blast
    have "doLoadConfiguration env svc h =
        (Inr res, svc\<lparr>bulkFetchFromWorkspacePromise := Some (Inr ()), cachedConfig := Some res\<rparr>, h')"
      by (simp add: doLoadConfiguration_def l e m)
    moreover have "objects h' (merged res) = Some G" by (simp add: o r c)
    ultimately show ?thesis by blast
  qed
  then show ?thesis using l by simp
qed

theorem missing_folder_adds_nothing_witness:
  "bulkFetchFromWorkspacePromise (ConfigurationService_new ''.vscode'' :: (string, string) ConfigurationService) = None \<and>
   resolveStat missingFolder (toResource missingFolder ''.vscode'') = Inl Truthy \<and> truthy Truthy \<and>
   fst (loadWorkspaceConfiguration missingFolder (ConfigurationService_new ''.vscode'')) = Inr Map.empty \<and>
   (\<exists>res svc' h'. doLoadConfiguration missingFolder (ConfigurationService_new ''.vscode'') defaultsStore =
        (Inr res, svc', h') \<and>
      objects h' (merged res) = Some [''editor.fontSize'' \<mapsto> ''12''])"
  using missing_folder_adds_nothing[of "ConfigurationService_new ''.vscode''" missingFolder
      defaultsStore "[''editor.fontSize'' \<mapsto> ''12'']"]
  by (simp add: ConfigurationService_new_def missingFolder_simps truthy_def defaultsStore_def)

theorem missing_folder_counterexample:
  "bulkFetchFromWorkspacePromise
     (fst (handleFileEvents missingFolder
        [\<lparr>change_resource = ''/w/.vscode/settings.json'', change_type = ADDED\<rparr>]
        (ConfigurationService_new ''.vscode''))) = None \<and>
   resolveStat missingFolder (toResource missingFolder ''.vscode'') = Inl Truthy \<and>
   fst (loadWorkspaceConfiguration missingFolder
     (fst (handleFileEvents missingFolder
        [\<lparr>change_resource = ''/w/.vscode/settings.json'', change_type = ADDED\<rparr>]
        (ConfigurationService_new ''.vscode'')))) =
     Inr [''.vscode/settings.json'' \<mapsto> Some ''{}''] \<and>
   fst (loadWorkspaceConfiguration missingFolder
     (fst (handleFileEvents missingFolder
        [\<lparr>change_resource = ''/w/.vscode/settings.json'', change_type = ADDED\<rparr>]
        (ConfigurationService_new ''.vscode'')))) \<noteq> Inr Map.empty"
proof -
  have "[''.vscode/settings.json'' \<mapsto> Some ''{}''] \<noteq> (Map.empty :: string \<rightharpoonup> string option)"
    by simp
  then show ?thesis
    unfolding recorded_file
    by (simp add: loadWorkspaceConfiguration_def bulkFetch_def recordContents_def truthy_def
        missingFolder_simps)
qed

lemma falsy_error_rejects:
  assumes "bulkFetchFromWorkspacePromise svc = None"
    and "resolveStat env (toResource env (workspaceSettingsRootFolder svc)) = Inl Falsy"
  shows "fst (loadWorkspaceConfiguration env svc) = Inl TypeError"
  using assms by (simp add: loadWorkspaceConfiguration_def bulkFetch_def truthy_def)



end
